theory Spec2Isabelle
  imports Complex_Main
begin

section \<open>Numbers and strings of the TypeScript source\<close>

text \<open>
  The beamforming core computes on JavaScript numbers. Array sizes and loop bounds
  (\<open>elements\<close>, \<open>samples\<close>) are natural numbers; every other number is modelled as a
  mathematical real, so \<open>Math.cos\<close>, \<open>Math.sqrt\<close>, \<open>Math.log\<close>, \<open>Math.pow\<close> are the
  functions \<open>cos\<close>, \<open>sqrt\<close>, \<open>ln\<close>, \<open>powr\<close> of analysis, without rounding, overflow
  or NaN. The one overflow the source tests for, \<open>isFinite(A)\<close> on the result of
  \<open>Math.pow\<close> in \<open>chebyshevWindow\<close>, is kept as a bound on the real; \<open>Number.isFinite\<close>
  on the values of a pattern holds of every real. A division by zero is
  \<open>Infinity\<close> or \<open>NaN\<close> in the source and 0 in HOL: the properties below that pass
  through a division by \<open>waveSpeed\<close> or \<open>frequencyHz\<close> are stated for the positive values
  a \<open>ProfileConfig\<close> has. The string-literal union types \<open>WindowType\<close>, \<open>SpacingUnit\<close>
  and \<open>ScanType\<close> are strings at run time and are strings here: a \<open>switch\<close> keeps its
  \<open>default\<close> branch.
\<close>

subsection \<open>\<open>Math.max\<close> of a spread array\<close>

text \<open>\<open>Math.max(...xs)\<close> is \<open>-Infinity\<close> for the empty array: \<open>None\<close> here.\<close>

fun mathMax :: "real list \<Rightarrow> real option" where
  "mathMax [] = None"
| "mathMax (x # xs) = Some (foldl max x xs)"

text \<open>A level in decibels: a finite number or \<open>-Infinity\<close>.\<close>

datatype dB = NegInfinity | Finite real

section \<open>Dynamic beamforming types (dynamic/types.ts)\<close>

text \<open>
  The fields \<open>type\<close> and \<open>range\<close> of \<open>ScanningConfig\<close> are \<open>scanType\<close> and
  \<open>scanRange\<close> here. Several interfaces share field names with \<open>ProfileConfig\<close>;
  they are declared first and their selectors are written with the record's name.
\<close>

record ScanningConfig =
  numScanLines :: nat
  scanType :: string
  scanRange :: "real \<times> real"
  samples :: nat

record ArrayConfig =
  elements :: nat
  elementSpacing :: real

record DynamicBeamformingConfig =
  timeStep :: real
  propagationSpeed :: real
  scanning :: ScanningConfig
  array :: ArrayConfig

type_synonym SampleMatrix = "real list list"

record ApodizedOptions =
  windowType :: "string option"
  chebyshevSidelobeDb :: "real option"

record PointSourceGeneratorConfig =
  offset :: real
  speed :: real
  frequencyHz :: real
  amplitude :: "real option"
  phase0 :: "real option"

text \<open>What the source throws.\<close>

datatype error = TypeError | CsvMissingDataHeader

definition elementPositionMeters :: "nat \<Rightarrow> ArrayConfig \<Rightarrow> real" where
  "elementPositionMeters index arr =
     (let center = (real (ArrayConfig.elements arr) - 1) / 2
      in (real index - center) * elementSpacing arr)"

definition scanlineParam :: "DynamicBeamformingConfig \<Rightarrow> nat \<Rightarrow> real" where
  "scanlineParam cfg scanlineIndex =
     (let n = numScanLines (scanning cfg);
          minVal = fst (scanRange (scanning cfg));
          maxVal = snd (scanRange (scanning cfg))
      in if n \<le> 1 then (minVal + maxVal) / 2
         else let t = real scanlineIndex / (real n - 1)
              in minVal + t * (maxVal - minVal))"

section \<open>Apodization windows (windows.ts)\<close>

definition rectangularWindow :: "nat \<Rightarrow> real list" where
  "rectangularWindow N = map (\<lambda>_. 1) [0..<N]"

definition hammingWindow :: "nat \<Rightarrow> real list" where
  "hammingWindow N =
     (if N \<le> 1 then [1]
      else let a0 = 0.54; a1 = 1 - a0; M = real (N - 1)
           in map (\<lambda>n. a0 - a1 * cos ((2 * pi * real n) / M)) [0..<N])"

definition triangularWindow :: "nat \<Rightarrow> real list" where
  "triangularWindow N =
     (if N \<le> 1 then [1]
      else let M = real (N - 1)
           in map (\<lambda>n. 1 - \<bar>(real n - M / 2) / (M / 2)\<bar>) [0..<N])"

text \<open>The local \<open>acosh\<close> of \<open>chebyshevWindow\<close>: \<open>Math.log(z + Math.sqrt(z * z - 1))\<close>.\<close>

definition acosh :: "real \<Rightarrow> real" where
  "acosh z = ln (z + sqrt (z * z - 1))"

text \<open>The local \<open>Tm\<close> of \<open>chebyshevWindow\<close>, with \<open>M = N - 1\<close> passed in; \<open>M & 1\<close> is oddness.\<close>

definition Tm :: "nat \<Rightarrow> real \<Rightarrow> real" where
  "Tm M x =
     (let tol = 1 / 10 ^ 15 in
      if \<bar>x\<bar> \<le> 1 + 1 / 10 ^ 12 then
        (let xc = max (-1) (min 1 x) in cos (real M * arccos xc))
      else
        (let ax = max (1 + tol) \<bar>x\<bar>;
             base = cosh (real M * acosh ax)
         in if x < 0 \<and> odd M then - base else base))"

text \<open>
  \<open>isFinite\<close> on the result of \<open>Math.pow\<close>: a double overflows to \<open>Infinity\<close> at
  \<open>2 ^ 1024\<close> (up to the rounding at that boundary).
\<close>

definition isFiniteNum :: "real \<Rightarrow> bool" where
  "isFiniteNum x = (\<bar>x\<bar> < 2 ^ 1024)"

text \<open>
  \<open>chebyshevWindow\<close> below keeps the test \<open>!isFinite(A) || A <= 1\<close> on
  \<open>A = Math.pow(10, sidelobeDb / 20)\<close>: from about 6165 dB on, \<open>A\<close> is \<open>Infinity\<close> and the
  window is all ones. The local \<open>acosh\<close> is only applied to arguments that are at least
  1. Between about 3083 dB and 6165 dB \<open>A\<close> is finite but \<open>A * A\<close> is not: there the
  local \<open>acosh\<close> of the source returns \<open>Infinity\<close> and every weight is \<open>NaN\<close>, which the
  reals do not have. The properties of the Chebyshev window that follow are stated
  for the default level of 30 dB, where no intermediate value overflows.
\<close>

text \<open>The symmetrizing loop: \<open>wc[i] = wc[j] = avg\<close> for \<open>i < floor(N / 2)\<close>, \<open>j = N - 1 - i\<close>.\<close>

definition symStep :: "nat \<Rightarrow> real list \<Rightarrow> nat \<Rightarrow> real list" where
  "symStep N wc i =
     (let j = N - 1 - i; avg = 0.5 * (wc ! i + wc ! j) in (wc[j := avg])[i := avg])"

definition chebyshevWindow :: "nat \<Rightarrow> real \<Rightarrow> real list" where
  "chebyshevWindow N sidelobeDb =
     (if N \<le> 1 then [1]
      else
        let M = N - 1;
            A = 10 powr (sidelobeDb / 20)
        in if \<not> isFiniteNum A \<or> A \<le> 1 then map (\<lambda>_. 1) [0..<N]
        else
          let beta = cosh (acosh A / real M);
              TMbeta = cosh (real M * acosh beta);
              Y = map (\<lambda>k. Tm M (beta * cos (pi * real k / real N)) / TMbeta) [0..<N];
              half = N div 2;
              w = map (\<lambda>n.
                    let s0 = Y ! 0;
                        s1 = foldl (\<lambda>s k. s + 2 * (Y ! k) * cos ((2 * pi * real k * real n) / real N))
                               s0 [1..<half];
                        s2 = (if even N then s1 + (Y ! half) * cos (pi * real n) else s1)
                    in s2 / real N) [0..<N];
              maxVal = mathMax (map abs w);
              inv = (case maxVal of Some m \<Rightarrow> if 0 < m then 1 / m else 1 | None \<Rightarrow> 1);
              w1 = map (\<lambda>v. v * inv) w;
              w2 = map (\<lambda>v. if v < 0 then 0 else v) w1;
              shift = N div 2;
              wc = map (\<lambda>i. w2 ! ((i + shift) mod N)) [0..<N]
          in foldl (symStep N) wc [0..<N div 2])"

text \<open>\<open>makeWindow\<close>: the \<open>switch\<close> on the type string, \<open>default\<close> last.\<close>

definition makeWindow :: "string \<Rightarrow> nat \<Rightarrow> real \<Rightarrow> real list" where
  "makeWindow type N chebDb =
     (if type = ''rectangular'' then rectangularWindow N
      else if type = ''hamming'' then hammingWindow N
      else if type = ''triangular'' then triangularWindow N
      else if type = ''chebyshev'' then chebyshevWindow N chebDb
      else rectangularWindow N)"

section \<open>Static profile (types.ts, beamforming.ts)\<close>

text \<open>
  \<open>ProfileConfig\<close>. The type of \<open>elements\<close> and the type of the other numbers are
  parameters: the computations below run on \<open>(nat, real) ProfileConfig\<close>, the CSV
  functions on whatever the number parser returns.
\<close>

record ('i, 'n) ProfileConfig =
  elements :: 'i
  spacing :: 'n
  spacingUnit :: string
  frequencyHz :: 'n
  waveSpeed :: 'n
  steerAngleDeg :: 'n
  windowType :: string
  chebyshevSidelobeDb :: "'n option"
  focusDepth :: "'n option"
  customWeights :: "'n list option"

record 'n PerElementDelays =
  timeDelays :: "'n list"
  phaseRadians :: "'n list"

record PatternPoint =
  angleDeg :: real
  intensityLin :: real
  intensityDb :: dB

text \<open>The object \<open>parseCsvConfig\<close> returns, \<open>{ config, weights }\<close>.\<close>

record 'n ParsedCsv =
  config :: "('n, 'n) ProfileConfig"
  weights :: "'n list"

record 'n ProfileSnapshot =
  weights :: "'n list"
  delays :: "'n PerElementDelays"

record ('i, 'n) BeamformFullProfile =
  config :: "('i, 'n) ProfileConfig"
  snapshot :: "'n ProfileSnapshot"
  pattern :: "PatternPoint list"

definition spacingMeters :: "(nat, real) ProfileConfig \<Rightarrow> real" where
  "spacingMeters cfg =
     (let lambda = waveSpeed cfg / frequencyHz cfg
      in if spacingUnit cfg = ''wavelength'' then spacing cfg * lambda else spacing cfg)"

text \<open>The last two lines of \<open>computeWeights\<close>: divide by the maximum if it is positive.\<close>

definition normalizeMax :: "real list \<Rightarrow> real list" where
  "normalizeMax w =
     (case mathMax (map abs w) of
        Some maxVal \<Rightarrow> if 0 < maxVal then map (\<lambda>v. v / maxVal) w else w
      | None \<Rightarrow> w)"

text \<open>The window \<open>computeWeights\<close> chooses before it normalizes.\<close>

definition chosenWindow :: "(nat, real) ProfileConfig \<Rightarrow> real list" where
  "chosenWindow cfg =
     (let N = elements cfg;
          chebDb = (case chebyshevSidelobeDb cfg of Some v \<Rightarrow> v | None \<Rightarrow> 30)
      in if windowType cfg = ''custom'' then
           (case customWeights cfg of
              Some cw \<Rightarrow> if length cw = N then cw else makeWindow ''hamming'' N chebDb
            | None \<Rightarrow> makeWindow ''hamming'' N chebDb)
         else makeWindow (windowType cfg) N chebDb)"

definition computeWeights :: "(nat, real) ProfileConfig \<Rightarrow> real list" where
  "computeWeights cfg = normalizeMax (chosenWindow cfg)"

text \<open>
  \<open>computeDelays\<close> fills both arrays in one loop over \<open>i < N\<close>; \<open>delaysFrom\<close> is that
  loop for a given per-element delay \<open>tau\<close>.
\<close>

definition delaysFrom :: "nat \<Rightarrow> real \<Rightarrow> (nat \<Rightarrow> real) \<Rightarrow> real PerElementDelays" where
  "delaysFrom N f tau =
     \<lparr> timeDelays = map tau [0..<N],
       phaseRadians = map (\<lambda>i. 2 * pi * f * tau i) [0..<N] \<rparr>"

definition computeDelays :: "(nat, real) ProfileConfig \<Rightarrow> real PerElementDelays" where
  "computeDelays cfg =
     (let N = elements cfg;
          d = spacingMeters cfg;
          c = waveSpeed cfg;
          theta0 = (steerAngleDeg cfg * pi) / 180;
          center = (real N - 1) / 2;
          steered = delaysFrom N (frequencyHz cfg)
                      (\<lambda>i. let x = (real i - center) * d in (x * sin theta0) / c)
      in case focusDepth cfg of
           None \<Rightarrow> steered
         | Some fd \<Rightarrow>
             if fd = 0 then steered
             else
               let xF = fd * sin theta0;
                   zF = fd * cos theta0;
                   rRef = sqrt ((0 - xF) * (0 - xF) + zF * zF)
               in delaysFrom N (frequencyHz cfg)
                    (\<lambda>i. let x = (real i - center) * d;
                             r = sqrt ((x - xF) * (x - xF) + zF * zF)
                         in (r - rRef) / c))"

text \<open>
  The inner loop of \<open>computePattern\<close> for one sweep angle: the intensity
  \<open>re * re + im * im\<close> of the array factor.
\<close>

definition rawIntensity :: "(nat, real) ProfileConfig \<Rightarrow> real \<Rightarrow> real" where
  "rawIntensity cfg ang =
     (let N = elements cfg;
          w = computeWeights cfg;
          d = spacingMeters cfg;
          lambda = waveSpeed cfg / frequencyHz cfg;
          kd = (2 * pi / lambda) * d;
          c = (real N - 1) / 2;
          s0 = sin ((steerAngleDeg cfg * pi) / 180);
          s = sin ((ang * pi) / 180);
          psi = (\<lambda>i. (real i - c) * kd * (s - s0));
          re = foldl (\<lambda>acc i. acc + w ! i * cos (psi i)) 0 [0..<N];
          im = foldl (\<lambda>acc i. acc + w ! i * sin (psi i)) 0 [0..<N]
      in re * re + im * im)"

definition computePattern ::
  "(nat, real) ProfileConfig \<Rightarrow> real list \<Rightarrow> bool \<Rightarrow> PatternPoint list" where
  "computePattern cfg anglesDeg normalized =
     (let raw = map (\<lambda>ang. (ang, rawIntensity cfg ang)) anglesDeg;
          maxI = foldl (\<lambda>m p. if snd p > m then snd p else m) 0 raw
      in map (\<lambda>p.
           let lin = (if normalized then (if maxI > 0 then snd p / maxI else 0) else snd p);
               db = (if lin > 0 then Finite (10 * log 10 lin) else NegInfinity)
           in \<lparr> angleDeg = fst p, intensityLin = lin, intensityDb = db \<rparr>) raw)"

section \<open>Dynamic beamformers (sum, delay-and-sum, delay-and-sum with apodization)\<close>

text \<open>
  A number read from the sample matrix or a weight array is \<open>Some x\<close>; \<open>None\<close> stands
  for what is not a number: \<open>undefined\<close>, read past the end of a row, and the \<open>NaN\<close>
  that arithmetic makes of it. Reading a column of a row that does not exist throws.
\<close>

definition rowAt :: "real list \<Rightarrow> nat \<Rightarrow> real option" where
  "rowAt row e = (if e < length row then Some (row ! e) else None)"

definition addNum :: "real option \<Rightarrow> real option \<Rightarrow> real option" where
  "addNum a b = (case a of None \<Rightarrow> None | Some x \<Rightarrow> (case b of None \<Rightarrow> None | Some y \<Rightarrow> Some (x + y)))"

definition mulNum :: "real option \<Rightarrow> real option \<Rightarrow> real option" where
  "mulNum a b = (case a of None \<Rightarrow> None | Some x \<Rightarrow> (case b of None \<Rightarrow> None | Some y \<Rightarrow> Some (x * y)))"

text \<open>The outer loop over samples stops at the first exception.\<close>

fun collect :: "(error + 'a) list \<Rightarrow> error + 'a list" where
  "collect [] = Inr []"
| "collect (x # xs) =
     (case x of
        Inl e \<Rightarrow> Inl e
      | Inr v \<Rightarrow> (case collect xs of Inl e \<Rightarrow> Inl e | Inr vs \<Rightarrow> Inr (v # vs)))"

text \<open>
  One pass of the plain sum: \<open>row = matrix[s]; for e < elements: acc += row[e]\<close>. With no
  row at \<open>s\<close> the first \<open>row[e]\<close> throws; with \<open>elements = 0\<close> nothing is read.
\<close>

definition sumSample :: "SampleMatrix \<Rightarrow> nat \<Rightarrow> nat \<Rightarrow> error + real option" where
  "sumSample matrix els s =
     (if s < length matrix
      then Inr (foldl (\<lambda>acc e. addNum acc (rowAt (matrix ! s) e)) (Some 0) [0..<els])
      else if els = 0 then Inr (Some 0) else Inl TypeError)"

text \<open>The \<open>beamform\<close> of \<open>createSumBeamformer()\<close>.\<close>

definition createSumBeamformer ::
  "SampleMatrix \<Rightarrow> nat \<Rightarrow> DynamicBeamformingConfig \<Rightarrow> error + real option list" where
  "createSumBeamformer matrix scanlineIndex cfg =
     (let nSamples = samples (scanning cfg);
          els = ArrayConfig.elements (array cfg)
      in collect (map (sumSample matrix els) [0..<nSamples]))"

text \<open>\<open>sampleRowLinear\<close>, the same function in both delay-and-sum files.\<close>

definition sampleRowLinear :: "SampleMatrix \<Rightarrow> nat \<Rightarrow> real \<Rightarrow> real option" where
  "sampleRowLinear matrix elementIndex sampleIndex =
     (let s0 = \<lfloor>sampleIndex\<rfloor>;
          frac = sampleIndex - real_of_int s0;
          s1 = s0 + 1
      in if s0 < 0 \<or> s0 \<ge> int (length matrix) then Some 0
         else
           let row0 = rowAt (matrix ! nat s0) elementIndex
           in if frac \<le> 1 / 10 ^ 12 then row0
              else if s1 < 0 \<or> s1 \<ge> int (length matrix) then row0
              else
                let row1 = rowAt (matrix ! nat s1) elementIndex
                in addNum (mulNum row0 (Some (1 - frac))) (mulNum row1 (Some frac)))"

text \<open>The per-element fractional sample shifts of the phased branch.\<close>

definition shiftOf :: "DynamicBeamformingConfig \<Rightarrow> nat \<Rightarrow> nat \<Rightarrow> real" where
  "shiftOf cfg scanlineIndex e =
     (let dt = timeStep cfg;
          c = propagationSpeed cfg;
          thetaDeg = scanlineParam cfg scanlineIndex;
          theta = (thetaDeg * pi) / 180;
          sinTheta = sin theta;
          x = elementPositionMeters e (array cfg);
          tau = (x * sinTheta) / c
      in - tau / dt)"

text \<open>The \<open>beamform\<close> of \<open>createDelayAndSumBeamformer()\<close> (delay-sum.ts).\<close>

definition createDelayAndSumBeamformer ::
  "SampleMatrix \<Rightarrow> nat \<Rightarrow> DynamicBeamformingConfig \<Rightarrow> error + real option list" where
  "createDelayAndSumBeamformer matrix scanlineIndex cfg =
     (let nSamples = samples (scanning cfg);
          els = ArrayConfig.elements (array cfg)
      in if scanType (scanning cfg) \<noteq> ''phased''
         then collect (map (sumSample matrix els) [0..<nSamples])
         else Inr (map (\<lambda>s.
                foldl (\<lambda>acc e. addNum acc
                         (sampleRowLinear matrix e (real s + shiftOf cfg scanlineIndex e)))
                  (Some 0) [0..<els]) [0..<nSamples]))"

text \<open>
  One pass of the apodized fallback: \<open>for e < elements: acc += matrix[s][e] * w[e]\<close>.
\<close>

definition apodizedSample :: "SampleMatrix \<Rightarrow> real list \<Rightarrow> nat \<Rightarrow> nat \<Rightarrow> error + real option" where
  "apodizedSample matrix w els s =
     (if s < length matrix
      then Inr (foldl (\<lambda>acc e. addNum acc (mulNum (rowAt (matrix ! s) e) (rowAt w e)))
                  (Some 0) [0..<els])
      else if els = 0 then Inr (Some 0) else Inl TypeError)"

text \<open>The \<open>beamform\<close> of \<open>createDelayAndSumApodizedBeamformer(opts)\<close>.\<close>

definition createDelayAndSumApodizedBeamformer ::
  "ApodizedOptions \<Rightarrow> SampleMatrix \<Rightarrow> nat \<Rightarrow> DynamicBeamformingConfig
     \<Rightarrow> error + real option list" where
  "createDelayAndSumApodizedBeamformer opts matrix scanlineIndex cfg =
     (let wType = (case ApodizedOptions.windowType opts of Some t \<Rightarrow> t | None \<Rightarrow> ''hamming'');
          cheb = (case ApodizedOptions.chebyshevSidelobeDb opts of Some v \<Rightarrow> v | None \<Rightarrow> 30);
          nSamples = samples (scanning cfg);
          els = ArrayConfig.elements (array cfg)
      in if scanType (scanning cfg) \<noteq> ''phased''
         then (let w = makeWindow wType els cheb
               in collect (map (apodizedSample matrix w els) [0..<nSamples]))
         else (let weights = makeWindow wType els cheb
               in Inr (map (\<lambda>s.
                     foldl (\<lambda>acc e. addNum acc
                              (mulNum (rowAt weights e)
                                 (sampleRowLinear matrix e (real s + shiftOf cfg scanlineIndex e))))
                       (Some 0) [0..<els]) [0..<nSamples])))"

section \<open>Point-source scanline generators\<close>

text \<open>
  Two files export \<open>createPointSourceGenerator\<close>. The first doubles the one-way time of
  flight (transmit delay ignored), the second adds a transmit delay from the array
  centre to the per-element receive delay. Each definition is the \<open>generateScanline\<close>
  of the generator made from \<open>genConfig\<close> (\<open>config\<close> in the source).
\<close>

definition createPointSourceGenerator ::
  "PointSourceGeneratorConfig \<Rightarrow> nat \<Rightarrow> DynamicBeamformingConfig \<Rightarrow> SampleMatrix" where
  "createPointSourceGenerator genConfig scanlineIndex cfg =
     (let amp = (case amplitude genConfig of Some a \<Rightarrow> a | None \<Rightarrow> 1);
          ph0 = (case phase0 genConfig of Some p \<Rightarrow> p | None \<Rightarrow> 0);
          nSamples = samples (scanning cfg);
          els = ArrayConfig.elements (array cfg);
          dt = timeStep cfg;
          c = propagationSpeed cfg;
          isPhased = (scanType (scanning cfg) = ''phased'');
          thetaRad = (if isPhased then (offset genConfig * pi) / 180 else 0);
          z0 = 1 / 10 ^ 3;
          xOffset = (if isPhased then 0 else offset genConfig)
      in map (\<lambda>s.
           let t = real s * dt;
               z = z0 + speed genConfig * t;
               xCenter = (if isPhased then z * tan thetaRad else xOffset)
           in map (\<lambda>e.
                let xElem = elementPositionMeters e (array cfg);
                    r = sqrt ((xElem - xCenter) * (xElem - xCenter) + z * z);
                    tau = r / c;
                    omega = 2 * pi * PointSourceGeneratorConfig.frequencyHz genConfig;
                    phase = omega * (t - 2 * tau) + ph0
                in amp * cos phase) [0..<els]) [0..<nSamples])"

definition createPointSourceGeneratorTxRx ::
  "PointSourceGeneratorConfig \<Rightarrow> nat \<Rightarrow> DynamicBeamformingConfig \<Rightarrow> SampleMatrix" where
  "createPointSourceGeneratorTxRx genConfig scanlineIndex cfg =
     (let amp = (case amplitude genConfig of Some a \<Rightarrow> a | None \<Rightarrow> 1);
          ph0 = (case phase0 genConfig of Some p \<Rightarrow> p | None \<Rightarrow> 0);
          nSamples = samples (scanning cfg);
          els = ArrayConfig.elements (array cfg);
          dt = timeStep cfg;
          c = propagationSpeed cfg;
          isPhased = (scanType (scanning cfg) = ''phased'');
          thetaRad = (if isPhased then (offset genConfig * pi) / 180 else 0);
          z0 = 1 / 10 ^ 3;
          xOffset = (if isPhased then 0 else offset genConfig)
      in map (\<lambda>s.
           let t = real s * dt;
               z = z0 + speed genConfig * t;
               xCenter = (if isPhased then z * tan thetaRad else xOffset);
               rTx = sqrt (xCenter * xCenter + z * z);
               tauTx = rTx / c;
               omega = 2 * pi * PointSourceGeneratorConfig.frequencyHz genConfig
           in map (\<lambda>e.
                let xElem = elementPositionMeters e (array cfg);
                    rRx = sqrt ((xElem - xCenter) * (xElem - xCenter) + z * z);
                    tauRx = rRx / c;
                    phase = omega * (t - (tauTx + tauRx)) + ph0
                in amp * cos phase) [0..<els]) [0..<nSamples])"

section \<open>Pattern statistics (pattern-stats.ts)\<close>

record PatternStats =
  pslDb :: "dB option"
  pslLin :: "real option"
  islrDb :: "real option"
  fwhmDeg :: "real option"
  mainLobeArea :: "real option"
  totalArea :: "real option"

definition trapezoidalIntegrate :: "real list \<Rightarrow> real list \<Rightarrow> real" where
  "trapezoidalIntegrate x y =
     (if length x \<noteq> length y \<or> length x = 0 then 0
      else foldl (\<lambda>s i. let dx = x ! (i + 1) - x ! i in s + 0.5 * (y ! i + y ! (i + 1)) * dx)
             0 [0..<length x - 1])"

text \<open>The direction argument \<open>dir: -1 | 1\<close> of \<open>findCross\<close> and \<open>findNull\<close>.\<close>

datatype direction = Minus1 | Plus1

fun dirInt :: "direction \<Rightarrow> int" where
  "dirInt Minus1 = - 1"
| "dirInt Plus1 = 1"

text \<open>
  The \<open>while\<close> loop of \<open>findCross\<close>; it returns the final \<open>i\<close>. A comparison with
  \<open>vals[i]\<close> outside the array is false in the source.
\<close>

function findCrossLoop :: "real list \<Rightarrow> real \<Rightarrow> direction \<Rightarrow> int \<Rightarrow> int" where
  "findCrossLoop vals half dir i =
     (if 0 \<le> i + dirInt dir \<and> i + dirInt dir < int (length vals)
         \<and> 0 \<le> i \<and> i < int (length vals) \<and> vals ! nat i \<ge> half
      then findCrossLoop vals half dir (i + dirInt dir)
      else i)"
  by pat_completeness auto
termination
  by (relation "measure (\<lambda>(vals, half, dir, i).
        case dir of Plus1 \<Rightarrow> nat (int (length vals) - i) | Minus1 \<Rightarrow> nat (i + 1))")
     (auto split: direction.splits)

definition findCross :: "real list \<Rightarrow> real list \<Rightarrow> real \<Rightarrow> nat \<Rightarrow> direction \<Rightarrow> real" where
  "findCross angles vals half start dir =
     (let i = findCrossLoop vals half dir (int start);
          j = i;
          k = i - dirInt dir
      in if k < 0 \<or> k \<ge> int (length vals) then angles ! nat j
         else
           let xk = angles ! nat k;
               xj = angles ! nat j;
               yk = vals ! nat k;
               yj = vals ! nat j
           in if yk = yj then xk
              else let t = (half - yk) / (yj - yk) in xk + t * (xj - xk))"

text \<open>The \<open>while\<close> loop of \<open>findNull\<close>, entered with \<open>i = startIdx + dir\<close>.\<close>

function findNullLoop :: "real list \<Rightarrow> real list \<Rightarrow> direction \<Rightarrow> int \<Rightarrow> real option" where
  "findNullLoop angles vals dir i =
     (if 0 < i \<and> i < int (length vals) - 1
      then (if vals ! nat i \<le> vals ! nat (i - 1) \<and> vals ! nat i \<le> vals ! nat (i + 1)
            then Some (angles ! nat i)
            else findNullLoop angles vals dir (i + dirInt dir))
      else None)"
  by pat_completeness auto
termination
  by (relation "measure (\<lambda>(angles, vals, dir, i).
        case dir of Plus1 \<Rightarrow> nat (int (length vals) - i) | Minus1 \<Rightarrow> nat (i + 1))")
     (auto split: direction.splits)

definition findNull :: "real list \<Rightarrow> real list \<Rightarrow> nat \<Rightarrow> direction \<Rightarrow> real option" where
  "findNull angles vals startIdx dir = findNullLoop angles vals dir (int startIdx + dirInt dir)"

definition nullStats :: PatternStats where
  "nullStats = \<lparr> pslDb = None, pslLin = None, islrDb = None, fwhmDeg = None,
                 mainLobeArea = None, totalArea = None \<rparr>"

text \<open>
  \<open>computePatternStats\<close>. \<open>Array.prototype.sort\<close> is stable, as \<open>sort_key\<close> is. On reals
  \<open>Number.isFinite\<close> holds and \<open>x || 0\<close> is \<open>x\<close>; \<open>Number.EPSILON\<close> is \<open>2 ^ -52\<close>. The
  logarithm of a negative ratio is \<open>NaN\<close> in the source and reported as \<open>null\<close>.
\<close>

definition computePatternStats :: "PatternPoint list \<Rightarrow> PatternStats" where
  "computePatternStats pointsIn =
     (if length pointsIn = 0 then nullStats
      else
        let pts = sort_key angleDeg pointsIn;
            angles = map angleDeg pts;
            vals = map intensityLin pts;
            peakIdx = foldl (\<lambda>pk i. if vals ! i > vals ! pk then i else pk) 0 [1..<length vals];
            peakVal = vals ! peakIdx
        in if peakVal = 0 then nullStats
           else
             let half = peakVal * 0.5;
                 edgeL = angles ! 0;
                 edgeR = angles ! (length angles - 1);
                 nullLeft = findNull angles vals peakIdx Minus1;
                 nullRight = findNull angles vals peakIdx Plus1;
                 cross =
                   (if vals ! peakIdx \<ge> half then
                      (case (nullLeft, nullRight) of
                         (Some nl, Some nr) \<Rightarrow>
                           if nl < angles ! peakIdx \<and> nr > angles ! peakIdx then (nl, nr)
                           else ((if peakIdx = 0 then edgeL
                                  else findCross angles vals half peakIdx Minus1),
                                 (if peakIdx = length vals - 1 then edgeR
                                  else findCross angles vals half peakIdx Plus1))
                       | _ \<Rightarrow> ((if peakIdx = 0 then edgeL
                                else findCross angles vals half peakIdx Minus1),
                               (if peakIdx = length vals - 1 then edgeR
                                else findCross angles vals half peakIdx Plus1)))
                    else (edgeL, edgeR));
                 leftCross = fst cross;
                 rightCross = snd cross;
                 fwhm = max 0 (rightCross - leftCross);
                 mainMask = map (\<lambda>a. a \<ge> leftCross - 1 / 10 ^ 12 \<and> a \<le> rightCross + 1 / 10 ^ 12) angles;
                 mainIdx = filter (\<lambda>i. mainMask ! i) [0..<length angles];
                 mainAngles = map (\<lambda>i. angles ! i) mainIdx;
                 mainVals = map (\<lambda>i. vals ! i) mainIdx;
                 totalA = trapezoidalIntegrate angles vals;
                 mainA = trapezoidalIntegrate mainAngles mainVals;
                 maxSidelobe = foldl (\<lambda>m i. if \<not> mainMask ! i \<and> vals ! i > m then vals ! i else m)
                                 0 [0..<length vals];
                 pslL = (if maxSidelobe > 0 then maxSidelobe else 0);
                 pslD = (if pslL > 0 then
                           (if pslL / peakVal > 0 then Some (Finite (10 * log 10 (pslL / peakVal)))
                            else None)
                         else if pslL = 0 then Some NegInfinity else None);
                 islr = (if mainA > 0 then
                           (let q = max 0 (totalA - mainA) / mainA;
                                q' = (if q = 0 then 1 / 2 ^ 52 else q)
                            in Some (10 * log 10 q'))
                         else None)
             in \<lparr> pslDb = pslD, pslLin = Some pslL, islrDb = islr, fwhmDeg = Some fwhm,
                  mainLobeArea = Some mainA, totalArea = Some totalA \<rparr>)"

section \<open>CSV export and import (csv.ts)\<close>

text \<open>
  The conversions between numbers and strings are the run-time library's, not this
  repository's: the template literal on a number, \<open>Number(s)\<close> on a string, and the
  numbers that array indices and lengths are. They are parameters of the model.
  Characters are code units below 256.
\<close>

record 'n NumberOps =
  numToString :: "'n \<Rightarrow> string"
  stringToNum :: "string \<Rightarrow> 'n"
  natToNum :: "nat \<Rightarrow> 'n"

definition LF :: char where "LF = CHR 0x0A"
definition CR :: char where "CR = CHR 0x0D"

definition dataHeader :: string where
  "dataHeader = ''index,weight,phaseRadians,timeDelaySeconds''"

text \<open>\<open>Array.prototype.join\<close>.\<close>

fun joinWith :: "string \<Rightarrow> string list \<Rightarrow> string" where
  "joinWith sep [] = []"
| "joinWith sep [x] = x"
| "joinWith sep (x # y # ys) = x @ sep @ joinWith sep (y # ys)"

text \<open>A template literal on \<open>xs[i]\<close>: the text \<open>undefined\<close> past the end of the array.\<close>

definition cellToString :: "'n NumberOps \<Rightarrow> 'n list \<Rightarrow> nat \<Rightarrow> string" where
  "cellToString ops xs i = (if i < length xs then numToString ops (xs ! i) else ''undefined'')"

text \<open>A template literal on \<open>x ?? ""\<close>.\<close>

definition optToString :: "'n NumberOps \<Rightarrow> 'n option \<Rightarrow> string" where
  "optToString ops x = (case x of None \<Rightarrow> [] | Some v \<Rightarrow> numToString ops v)"

definition toCsv :: "'n NumberOps \<Rightarrow> ('n, 'n) BeamformFullProfile \<Rightarrow> string" where
  "toCsv ops result =
     (let cfg = BeamformFullProfile.config result;
          profile = snapshot result;
          ws = ProfileSnapshot.weights profile;
          ds = delays profile;
          header = joinWith [LF]
            [ ''# BeamformerConfig'',
              ''elements,'' @ numToString ops (elements cfg),
              ''spacing,'' @ numToString ops (spacing cfg),
              ''spacingUnit,'' @ spacingUnit cfg,
              ''frequencyHz,'' @ numToString ops (frequencyHz cfg),
              ''waveSpeed,'' @ numToString ops (waveSpeed cfg),
              ''steerAngleDeg,'' @ numToString ops (steerAngleDeg cfg),
              ''windowType,'' @ windowType cfg,
              ''focusDepth,'' @ optToString ops (focusDepth cfg),
              ''chebyshevSidelobeDb,'' @ optToString ops (chebyshevSidelobeDb cfg),
              ''customWeights,'' @ (case customWeights cfg of None \<Rightarrow> [] | Some _ \<Rightarrow> ''present''),
              [],
              dataHeader ];
          rows = map (\<lambda>i.
                   numToString ops (natToNum ops i) @ '','' @ numToString ops (ws ! i) @ '','' @
                   cellToString ops (phaseRadians ds) i @ '','' @ cellToString ops (timeDelays ds) i)
                 [0..<length ws]
      in header @ [LF] @ joinWith [LF] rows @ [LF])"

text \<open>\<open>csv.split(/\r?\n/)\<close>.\<close>

fun splitLines :: "string \<Rightarrow> string list" where
  "splitLines [] = [[]]"
| "splitLines (c # cs) =
     (if c = LF then [] # splitLines cs
      else if c = CR \<and> take 1 cs = [LF] then [] # splitLines (drop 1 cs)
      else (case splitLines cs of [] \<Rightarrow> [[c]] | l # ls \<Rightarrow> (c # l) # ls))"

text \<open>\<open>L.split(",")\<close>.\<close>

fun splitComma :: "string \<Rightarrow> string list" where
  "splitComma [] = [[]]"
| "splitComma (c # cs) =
     (if c = CHR '','' then [] # splitComma cs
      else (case splitComma cs of [] \<Rightarrow> [[c]] | l # ls \<Rightarrow> (c # l) # ls))"

text \<open>The white space \<open>String.prototype.trim\<close> removes, among code units below 256.\<close>

definition isSpace :: "char \<Rightarrow> bool" where
  "isSpace c = (of_char c \<in> {9, 10, 11, 12, 13, 32, 160 :: nat})"

definition trim :: "string \<Rightarrow> string" where
  "trim s = rev (dropWhile isSpace (rev (dropWhile isSpace s)))"

definition startsWith :: "string \<Rightarrow> string \<Rightarrow> bool" where
  "startsWith s p = (take (length p) s = p)"

text \<open>
  The first loop of \<open>parseCsvConfig\<close>: it fills the map and stops at the data header.
  The lines after the header stand for \<open>dataStart\<close>; \<open>None\<close> is \<open>dataStart = -1\<close>.
\<close>

fun scanConfig ::
  "string list \<Rightarrow> (string \<rightharpoonup> string) \<Rightarrow> (string \<rightharpoonup> string) \<times> string list option" where
  "scanConfig [] m = (m, None)"
| "scanConfig (l # ls) m =
     (let L = trim l in
      if L = [] then scanConfig ls m
      else if startsWith L ''#'' then scanConfig ls m
      else if startsWith L dataHeader then (m, Some ls)
      else
        let parts = splitComma L in
        if length parts \<ge> 2
        then scanConfig ls (m(hd parts \<mapsto> joinWith '','' (tl parts)))
        else scanConfig ls m)"

text \<open>The second loop: one weight for every non-blank line with at least two columns.\<close>

fun parseRows :: "'n NumberOps \<Rightarrow> string list \<Rightarrow> 'n list" where
  "parseRows ops [] = []"
| "parseRows ops (l # ls) =
     (let L = trim l in
      if L = [] then parseRows ops ls
      else
        let cols = take 4 (splitComma L) in
        if length cols < 2 then parseRows ops ls
        else stringToNum ops (cols ! 1) # parseRows ops ls)"

definition parseCsvConfig :: "'n NumberOps \<Rightarrow> string \<Rightarrow> error + 'n ParsedCsv" where
  "parseCsvConfig ops csv =
     (let lines = splitLines csv;
          scanned = scanConfig lines Map.empty;
          m = fst scanned
      in case snd scanned of
           None \<Rightarrow> Inl CsvMissingDataHeader
         | Some dataLines \<Rightarrow>
             let numOr = (\<lambda>k d. case m k of Some v \<Rightarrow> stringToNum ops v | None \<Rightarrow> natToNum ops d);
                 strOr = (\<lambda>k d. case m k of Some v \<Rightarrow> v | None \<Rightarrow> d);
                 optNum = (\<lambda>k. case m k of
                                  Some v \<Rightarrow> if v = [] then None else Some (stringToNum ops v)
                                | None \<Rightarrow> None);
                 ws = parseRows ops dataLines;
                 els = numOr ''elements'' 0
             in Inr \<lparr> ParsedCsv.config =
                       \<lparr> elements = els,
                         spacing = numOr ''spacing'' 0,
                         spacingUnit = strOr ''spacingUnit'' ''wavelength'',
                         frequencyHz = numOr ''frequencyHz'' 1,
                         waveSpeed = numOr ''waveSpeed'' 1540,
                         steerAngleDeg = numOr ''steerAngleDeg'' 0,
                         windowType = strOr ''windowType'' ''rectangular'',
                         chebyshevSidelobeDb = optNum ''chebyshevSidelobeDb'',
                         focusDepth = optNum ''focusDepth'',
                         customWeights = (if natToNum ops (length ws) = els then Some ws else None) \<rparr>,
                     ParsedCsv.weights = ws \<rparr>)"



subsection \<open>Conditions on the number printer, and a sample printer\<close>

text \<open>
  A text without white space or comma, as the run-time library prints a number.
\<close>

definition plainText :: "string \<Rightarrow> bool" where
  "plainText s = (s \<noteq> [] \<and> list_all (\<lambda>c. c \<noteq> CHR '','' \<and> \<not> isSpace c) s)"

text \<open>\<open>x\<close> is printed as a plain text that \<open>Number\<close> reads back as \<open>x\<close>.\<close>

definition printsBack :: "'n NumberOps \<Rightarrow> 'n \<Rightarrow> bool" where
  "printsBack ops x = (plainText (numToString ops x) \<and> stringToNum ops (numToString ops x) = x)"

text \<open>The numbers \<open>toCsv\<close> prints for a profile.\<close>

definition printedNumbers :: "'n NumberOps \<Rightarrow> ('n, 'n) BeamformFullProfile \<Rightarrow> 'n list" where
  "printedNumbers ops p =
     (let cfg = BeamformFullProfile.config p;
          ws = ProfileSnapshot.weights (snapshot p)
      in [elements cfg, spacing cfg, frequencyHz cfg, waveSpeed cfg, steerAngleDeg cfg]
         @ (case focusDepth cfg of None \<Rightarrow> [] | Some v \<Rightarrow> [v])
         @ (case chebyshevSidelobeDb cfg of None \<Rightarrow> [] | Some v \<Rightarrow> [v])
         @ map (natToNum ops) [0..<length ws]
         @ ws
         @ phaseRadians (delays (snapshot p))
         @ timeDelays (delays (snapshot p)))"

text \<open>
  A sample instance of the parameters: natural numbers in decimal, which is how the
  run-time library prints and reads non-negative integers.
\<close>

definition digitChar :: "nat \<Rightarrow> char" where
  "digitChar d = ''0123456789'' ! d"

fun natToString :: "nat \<Rightarrow> string" where
  "natToString n =
     (if n < 10 then [digitChar n]
      else natToString (n div 10) @ [digitChar (n mod 10)])"

definition stringToNat :: "string \<Rightarrow> nat" where
  "stringToNat s = foldl (\<lambda>a c. 10 * a + (of_char c - 48)) 0 s"

definition natOps :: "nat NumberOps" where
  "natOps = \<lparr> numToString = natToString, stringToNum = stringToNat, natToNum = (\<lambda>n. n) \<rparr>"

section \<open>Normalization of weights\<close>

lemma mathMax_Some: "w \<noteq> [] \<Longrightarrow> mathMax w = Some (Max (set w))"
proof (cases w)
  case Nil
  then show "w \<noteq> [] \<Longrightarrow> ?thesis" by simp
next
  case (Cons x xs)
  have "foldl max x xs = fold max xs x"
    by (simp add: foldl_conv_fold max.commute)
  then show ?thesis using Cons Max.set_eq_fold[of x xs] by simp
qed

lemma length_normalizeMax: "length (normalizeMax w) = length w"
  by (simp add: normalizeMax_def split: option.splits)

lemma normalizeMax_div:
  assumes "\<exists>v \<in> set w. v \<noteq> 0"
  shows "normalizeMax w = map (\<lambda>v. v / Max (set (map abs w))) w"
proof -
  from assms have ne: "w \<noteq> []" by auto
  obtain v where v: "v \<in> set w" "v \<noteq> 0" using assms by blast
  have "\<bar>v\<bar> \<le> Max (set (map abs w))" using v by (intro Max_ge) auto
  with v have "0 < Max (set (map abs w))" by linarith
  then show ?thesis using ne by (simp add: normalizeMax_def mathMax_Some)
qed

lemma normalizeMax_max:
  assumes "\<exists>v \<in> set w. v \<noteq> 0"
  shows "mathMax (map abs (normalizeMax w)) = Some 1"
proof -
  from assms have ne: "w \<noteq> []" by auto
  define m where "m = Max (set (map abs w))"
  obtain v where v: "v \<in> set w" "v \<noteq> 0" using assms by blast
  have "\<bar>v\<bar> \<le> m" unfolding m_def using v by (intro Max_ge) auto
  with v have mpos: "0 < m" by linarith
  have nm: "normalizeMax w = map (\<lambda>v. v / m) w"
    unfolding m_def by (rule normalizeMax_div[OF assms])
  have "m \<in> set (map abs w)" unfolding m_def using ne by (intro Max_in) auto
  then obtain u where u: "u \<in> set w" "\<bar>u\<bar> = m" by auto
  have "Max (set (map abs (map (\<lambda>v. v / m) w))) = 1"
  proof (rule Max_eqI)
    show "finite (set (map abs (map (\<lambda>v. v / m) w)))" by simp
  next
    fix y assume "y \<in> set (map abs (map (\<lambda>v. v / m) w))"
    then obtain x where x: "x \<in> set w" "y = \<bar>x / m\<bar>" by auto
    have "\<bar>x\<bar> \<le> m" unfolding m_def using x by (intro Max_ge) auto
    then show "y \<le> 1" using x mpos by simp
  next
    have "\<bar>u / m\<bar> = 1" using u mpos by simp
    then show "1 \<in> set (map abs (map (\<lambda>v. v / m) w))" using u(1) by force
  qed
  then show ?thesis using nm ne by (simp add: mathMax_Some)
qed

subsection \<open>The Hamming window\<close>

lemma length_hammingWindow: "1 \<le> N \<Longrightarrow> length (hammingWindow N) = N"
  by (auto simp: hammingWindow_def Let_def)

lemma hammingWindow_nonempty: "hammingWindow N \<noteq> []"
  by (auto simp: hammingWindow_def Let_def)

lemma hamming_term_pos: "0 < 0.54 - (1 - 0.54) * cos (x::real)"
proof -
  have "0 < 27 / 50 - 23 / 50 * cos x" using cos_le_one[of x] by linarith
  also have "27 / 50 - 23 / 50 * cos x = 0.54 - (1 - 0.54) * cos x" by simp
  finally show ?thesis .
qed

lemma hammingWindow_pos:
  assumes "v \<in> set (hammingWindow N)"
  shows "0 < v"
proof (cases "N \<le> 1")
  case True
  then show ?thesis using assms by (simp add: hammingWindow_def)
next
  case False
  then obtain n where "v = 0.54 - (1 - 0.54) * cos ((2 * pi * real n) / real (N - 1))"
    using assms by (auto simp: hammingWindow_def Let_def)
  then show ?thesis using hamming_term_pos by simp
qed

lemma hammingWindow_nonzero: "\<exists>v \<in> set (hammingWindow N). v \<noteq> 0"
proof -
  obtain v where "v \<in> set (hammingWindow N)"
    using hammingWindow_nonempty[of N] by (cases "hammingWindow N") auto
  then show ?thesis using hammingWindow_pos by force
qed

subsection \<open>Window lengths and the non-delayed sums\<close>

lemma length_symStep: "length (symStep N wc i) = length wc"
  by (simp add: symStep_def Let_def)

lemma length_foldl_symStep: "length (foldl (symStep N) wc xs) = length wc"
  by (induction xs arbitrary: wc) (simp_all add: length_symStep)

lemma length_chebyshevWindow: "1 \<le> N \<Longrightarrow> length (chebyshevWindow N db) = N"
  by (simp add: chebyshevWindow_def Let_def length_foldl_symStep)

lemma length_triangularWindow: "1 \<le> N \<Longrightarrow> length (triangularWindow N) = N"
  by (auto simp: triangularWindow_def Let_def)

lemma length_rectangularWindow: "length (rectangularWindow N) = N"
  by (simp add: rectangularWindow_def)

lemma length_makeWindow: "1 \<le> N \<Longrightarrow> length (makeWindow t N db) = N"
  by (simp add: makeWindow_def length_rectangularWindow length_hammingWindow
      length_triangularWindow length_chebyshevWindow)

lemma collect_Inr: "collect (map (\<lambda>s. Inr (f s)) xs) = Inr (map f xs)"
  by (induction xs) simp_all

lemma foldl_addNum_row:
  "n \<le> length row \<Longrightarrow>
   foldl (\<lambda>acc e. addNum acc (rowAt row e)) (Some a) [0..<n] = Some (a + (\<Sum>e<n. row ! e))"
  by (induction n) (simp_all add: addNum_def rowAt_def)

lemma foldl_addNum_weighted:
  "n \<le> length row \<Longrightarrow> n \<le> length w \<Longrightarrow>
   foldl (\<lambda>acc e. addNum acc (mulNum (rowAt row e) (rowAt w e))) (Some a) [0..<n]
     = Some (a + (\<Sum>e<n. row ! e * w ! e))"
  by (induction n) (simp_all add: addNum_def mulNum_def rowAt_def)

lemma sumSample_row:
  assumes "s < length matrix" "length (matrix ! s) = els"
  shows "sumSample matrix els s = Inr (Some (sum_list (matrix ! s)))"
proof -
  have "(\<Sum>e<els. matrix ! s ! e) = sum_list (matrix ! s)"
    using assms(2) by (simp add: sum_list_sum_nth lessThan_atLeast0)
  moreover have "foldl (\<lambda>acc e. addNum acc (rowAt (matrix ! s) e)) (Some 0) [0..<els]
                  = Some (0 + (\<Sum>e<els. matrix ! s ! e))"
    by (rule foldl_addNum_row) (simp add: assms(2))
  ultimately show ?thesis using assms(1) by (simp add: sumSample_def)
qed

lemma map_nth_upt: "map (\<lambda>s. f (xs ! s)) [0..<length xs] = map f xs"
proof -
  have "map (\<lambda>s. f (xs ! s)) [0..<length xs] = map f (map ((!) xs) [0..<length xs])"
    by (simp add: comp_def)
  then show ?thesis by (simp only: map_nth)
qed

lemma sum_rows:
  assumes "\<forall>row \<in> set matrix. length row = els"
  shows "collect (map (sumSample matrix els) [0..<length matrix])
           = Inr (map (\<lambda>row. Some (sum_list row)) matrix)"
proof -
  have eq: "map (sumSample matrix els) [0..<length matrix]
          = map (\<lambda>s. Inr (Some (sum_list (matrix ! s)))) [0..<length matrix]"
    using assms by (intro map_cong) (simp_all add: sumSample_row)
  show ?thesis
    unfolding eq collect_Inr by (simp only: map_nth_upt[of "\<lambda>row. Some (sum_list row)" matrix])
qed

lemma apodized_rows:
  assumes "\<forall>row \<in> set matrix. length row = els" "els \<le> length w"
  shows "collect (map (apodizedSample matrix w els) [0..<length matrix])
           = Inr (map (\<lambda>row. Some (\<Sum>e<els. w ! e * row ! e)) matrix)"
proof -
  have eq: "map (apodizedSample matrix w els) [0..<length matrix]
          = map (\<lambda>s. Inr (Some (\<Sum>e<els. w ! e * (matrix ! s) ! e))) [0..<length matrix]"
  proof (intro map_cong refl)
    fix s assume "s \<in> set [0..<length matrix]"
    then have s: "s < length matrix" by simp
    then have "length (matrix ! s) = els" using assms(1) by simp
    then have "foldl (\<lambda>acc e. addNum acc (mulNum (rowAt (matrix ! s) e) (rowAt w e))) (Some 0) [0..<els]
                  = Some (0 + (\<Sum>e<els. matrix ! s ! e * w ! e))"
      using assms(2) by (intro foldl_addNum_weighted) simp_all
    then show "apodizedSample matrix w els s = Inr (Some (\<Sum>e<els. w ! e * (matrix ! s) ! e))"
      using s by (simp add: apodizedSample_def mult.commute)
  qed
  show ?thesis
    unfolding eq collect_Inr
    by (simp only: map_nth_upt[of "\<lambda>row. Some (\<Sum>e<els. w ! e * row ! e)" matrix])
qed

subsection \<open>Delays and pattern\<close>

lemma length_computeWeights: "1 \<le> elements cfg \<Longrightarrow> length (computeWeights cfg) = elements cfg"
  by (simp add: computeWeights_def chosenWindow_def length_normalizeMax length_makeWindow Let_def
      split: option.splits)

lemma timeDelays_delaysFrom: "i < N \<Longrightarrow> timeDelays (delaysFrom N f tau) ! i = tau i"
  by (simp add: delaysFrom_def)

lemma maxI_fold:
  "foldl (\<lambda>m p. if snd p > m then snd p else m) a raw = Max (insert a (snd ` set raw))"
proof -
  have "foldl (\<lambda>m p. if snd p > m then snd p else m) a raw = fold max (map snd raw) a"
    by (induction raw arbitrary: a) (auto simp: max_def)
  also have "\<dots> = Max (set (a # map snd raw))"
    by (rule Max.set_eq_fold[symmetric])
  finally show ?thesis by simp
qed

lemma rawIntensity_nonneg: "0 \<le> rawIntensity cfg ang"
  by (simp add: rawIntensity_def Let_def)

subsection \<open>The peak search of the pattern statistics\<close>

lemma peak_fold_take:
  assumes "1 \<le> n" "n \<le> length vals"
  shows "foldl (\<lambda>pk i. if vals ! i > vals ! pk then i else pk) 0 [1..<n] < n
       \<and> vals ! (foldl (\<lambda>pk i. if vals ! i > vals ! pk then i else pk) 0 [1..<n])
           = Max (set (take n vals))"
  using assms
proof (induction n)
  case 0
  then show ?case by simp
next
  case (Suc n)
  show ?case
  proof (cases "n = 0")
    case True
    then have "take (Suc n) vals = [vals ! 0]"
      using Suc.prems by (cases vals) simp_all
    then show ?thesis using True by simp
  next
    case False
    let ?pk = "foldl (\<lambda>pk i. if vals ! i > vals ! pk then i else pk) 0 [1..<n]"
    have ih: "?pk < n" "vals ! ?pk = Max (set (take n vals))"
      using Suc.IH False Suc.prems by simp_all
    have upt: "[1..<Suc n] = [1..<n] @ [n]" using False by simp
    have tk: "take (Suc n) vals = take n vals @ [vals ! n]"
      using Suc.prems by (simp add: take_Suc_conv_app_nth)
    have ne: "set (take n vals) \<noteq> {}" using False Suc.prems by (cases vals) auto
    have mx: "Max (set (take (Suc n) vals)) = max (vals ! n) (Max (set (take n vals)))"
      unfolding tk using ne by simp
    show ?thesis
      unfolding upt foldl_append mx using ih by (auto simp: max_def)
  qed
qed

lemma peak_fold:
  assumes "vals \<noteq> []"
  shows "vals ! (foldl (\<lambda>pk i. if vals ! i > vals ! pk then i else pk) 0 [1..<length vals])
           = Max (set vals)"
proof -
  have "1 \<le> length vals" using assms by (cases vals) simp_all
  then show ?thesis using peak_fold_take[of "length vals" vals] by simp
qed

subsection \<open>Scanning the key lines of a CSV text\<close>

lemma splitComma_nonempty: "splitComma s \<noteq> []"
  by (induction s) (auto split: list.splits)

lemma splitComma_prefix:
  "2 \<le> length (splitComma s) \<Longrightarrow>
   take (Suc (length (hd (splitComma s)))) s = hd (splitComma s) @ '',''"
proof (induction s)
  case Nil
  then show ?case by simp
next
  case (Cons c cs)
  show ?case
  proof (cases "c = CHR '',''")
    case True
    then show ?thesis by simp
  next
    case False
    obtain l ls where l: "splitComma cs = l # ls"
      using splitComma_nonempty[of cs] by (cases "splitComma cs") auto
    then have "2 \<le> length (splitComma cs)" using Cons.prems False by simp
    then have "take (Suc (length l)) cs = l @ '',''" using Cons.IH l by simp
    then show ?thesis using False l by simp
  qed
qed

lemma startsWith_append: "startsWith L p \<Longrightarrow> \<exists>r. L = p @ r"
  by (metis append_take_drop_id startsWith_def)

lemma header_not_blank:
  assumes "startsWith L dataHeader"
  shows "L \<noteq> []" "\<not> startsWith L ''#''"
proof -
  obtain r where r: "L = dataHeader @ r" using startsWith_append[OF assms] by blast
  show "L \<noteq> []" unfolding r by (simp add: dataHeader_def)
  show "\<not> startsWith L ''#''" unfolding r by (simp add: dataHeader_def startsWith_def)
qed

lemma key_line_prefix:
  assumes "2 \<le> length (splitComma L)" "hd (splitComma L) = k"
  shows "startsWith L (k @ '','')"
  using splitComma_prefix[OF assms(1)] assms(2) by (simp add: startsWith_def)

lemma scanConfig_no_elements:
  assumes "i < length ls"
    and "startsWith (trim (ls ! i)) dataHeader"
    and "\<forall>j < i. \<not> startsWith (trim (ls ! j)) ''elements,''"
    and "m ''elements'' = None"
  shows "snd (scanConfig ls m) \<noteq> None \<and> fst (scanConfig ls m) ''elements'' = None"
  using assms
proof (induction ls arbitrary: i m)
  case Nil
  then show ?case by simp
next
  case (Cons l ls)
  let ?L = "trim l"
  show ?case
  proof (cases "startsWith ?L dataHeader")
    case True
    then show ?thesis using header_not_blank[OF True] Cons.prems(4) by (simp add: Let_def)
  next
    case False
    then have ipos: "0 < i" using Cons.prems(2) by (cases i) auto
    then obtain i' where i': "i = Suc i'" by (cases i) auto
    have p1: "i' < length ls" using Cons.prems(1) i' by simp
    have p2: "startsWith (trim (ls ! i')) dataHeader" using Cons.prems(2) i' by simp
    have p3: "\<forall>j < i'. \<not> startsWith (trim (ls ! j)) ''elements,''"
      using Cons.prems(3) i' by auto
    have noel: "\<not> startsWith ?L ''elements,''" using Cons.prems(3) ipos by force
    have key: "2 \<le> length (splitComma ?L) \<Longrightarrow> hd (splitComma ?L) \<noteq> ''elements''"
      using key_line_prefix[of ?L "''elements''"] noel by auto
    have rec: "snd (scanConfig ls m') \<noteq> None \<and> fst (scanConfig ls m') ''elements'' = None"
      if "m' ''elements'' = None" for m'
      using Cons.IH[of i' m', OF p1 p2 p3 that] .
    show ?thesis
    proof (cases "?L = [] \<or> startsWith ?L ''#'' \<or> \<not> 2 \<le> length (splitComma ?L)")
      case True
      then show ?thesis using False rec[of m, OF Cons.prems(4)] by (auto simp: Let_def)
    next
      case f2: False
      then have "(m(hd (splitComma ?L) \<mapsto> joinWith '','' (tl (splitComma ?L)))) ''elements'' = None"
        using key Cons.prems(4) by simp
      then show ?thesis using False f2 rec by (simp add: Let_def)
    qed
  qed
qed

subsection \<open>Reading back what \<open>toCsv\<close> writes\<close>

lemma splitLines_line:
  "LF \<notin> set l \<Longrightarrow> CR \<notin> set l \<Longrightarrow> splitLines (l @ LF # rest) = l # splitLines rest"
  by (induction l) auto

lemma splitLines_join:
  assumes "ls \<noteq> []" "\<forall>l \<in> set ls. LF \<notin> set l \<and> CR \<notin> set l"
  shows "splitLines (joinWith [LF] ls @ LF # rest) = ls @ splitLines rest"
  using assms
proof (induction ls)
  case Nil
  then show ?case by simp
next
  case (Cons l ls)
  show ?case
  proof (cases ls)
    case Nil
    then show ?thesis using Cons.prems splitLines_line[of l rest] by simp
  next
    case (Cons l' ls')
    have "joinWith [LF] (l # ls) @ LF # rest = l @ LF # (joinWith [LF] ls @ LF # rest)"
      using Cons by simp
    moreover have "splitLines (joinWith [LF] ls @ LF # rest) = ls @ splitLines rest"
      using Cons.IH Cons.prems Cons by simp
    ultimately show ?thesis
      using Cons.prems splitLines_line[of l "joinWith [LF] ls @ LF # rest"] by simp
  qed
qed

lemma plainText_facts:
  assumes "plainText s"
  shows "s \<noteq> []" "LF \<notin> set s" "CR \<notin> set s" "CHR '','' \<notin> set s"
    "\<not> isSpace (hd s)" "\<not> isSpace (last s)"
proof -
  have all: "\<forall>c \<in> set s. c \<noteq> CHR '','' \<and> \<not> isSpace c" and ne: "s \<noteq> []"
    using assms by (simp_all add: plainText_def list_all_iff)
  show "s \<noteq> []" by (rule ne)
  have "isSpace LF" "isSpace CR" by (simp_all add: isSpace_def LF_def CR_def)
  then show "LF \<notin> set s" "CR \<notin> set s" using all by auto
  show "CHR '','' \<notin> set s" using all by auto
  show "\<not> isSpace (hd s)" "\<not> isSpace (last s)" using all ne by simp_all
qed

lemma dropWhile_id: "xs \<noteq> [] \<Longrightarrow> \<not> P (hd xs) \<Longrightarrow> dropWhile P xs = xs"
  by (cases xs) simp_all

lemma trim_id:
  assumes "s \<noteq> []" "\<not> isSpace (hd s)" "\<not> isSpace (last s)"
  shows "trim s = s"
proof -
  have a: "dropWhile isSpace s = s" using assms(1,2) by (rule dropWhile_id)
  have "hd (rev s) = last s" using assms(1) by (simp add: hd_rev)
  then have b: "dropWhile isSpace (rev s) = rev s"
    using assms(1,3) by (intro dropWhile_id) simp_all
  show ?thesis by (simp add: trim_def a b)
qed

lemma trim_empty: "trim [] = []"
  by (simp add: trim_def)

lemma splitComma_plain: "CHR '','' \<notin> set s \<Longrightarrow> splitComma s = [s]"
  by (induction s) auto

lemma splitComma_field:
  "CHR '','' \<notin> set k \<Longrightarrow> splitComma (k @ CHR '','' # v) = k # splitComma v"
  by (induction k) auto

lemma scanConfig_key:
  assumes k: "plainText k" and h1: "hd k \<noteq> CHR ''#''" and h2: "hd k \<noteq> CHR ''i''"
    and v: "v = [] \<or> plainText v"
  shows "scanConfig ((k @ CHR '','' # v) # ls) m = scanConfig ls (m(k \<mapsto> v))"
proof -
  let ?L = "k @ CHR '','' # v"
  note kf = plainText_facts[OF k]
  have lastL: "\<not> isSpace (last ?L)"
    using v plainText_facts(1,6)[of v] by (auto simp: isSpace_def)
  have hdL: "hd ?L = hd k" using kf(1) by simp
  have tr: "trim ?L = ?L" using kf(5) lastL hdL by (intro trim_id) simp_all
  have c: "CHR '','' \<notin> set v" using v plainText_facts(4)[of v] by auto
  have sp: "splitComma ?L = [k, v]"
    using splitComma_field[OF kf(4), of v] splitComma_plain[OF c] by simp
  obtain c0 k' where k': "k = c0 # k'" using kf(1) by (cases k) auto
  have nh: "\<not> startsWith ?L ''#''" using h1 k' by (simp add: startsWith_def)
  have nd: "\<not> startsWith ?L dataHeader" using h2 k' by (simp add: startsWith_def dataHeader_def)
  show ?thesis
    unfolding scanConfig.simps tr Let_def sp using nh nd by simp
qed

lemma parseRows_blank: "\<forall>b \<in> set blanks. b = [] \<Longrightarrow> parseRows ops blanks = []"
  by (induction blanks) (simp_all add: trim_empty)

lemma parseRows_rows:
  assumes "\<forall>i \<in> set xs. plainText (S i) \<and> plainText (W i) \<and> plainText (P i) \<and> plainText (T i)"
    and "\<forall>b \<in> set blanks. b = []"
  shows "parseRows ops (map (\<lambda>i. S i @ '','' @ W i @ '','' @ P i @ '','' @ T i) xs @ blanks)
           = map (\<lambda>i. stringToNum ops (W i)) xs"
  using assms(1)
proof (induction xs)
  case Nil
  then show ?case using parseRows_blank[OF assms(2)] by simp
next
  case (Cons i xs)
  let ?row = "S i @ '','' @ W i @ '','' @ P i @ '','' @ T i"
  have pl: "plainText (S i)" "plainText (W i)" "plainText (P i)" "plainText (T i)"
    using Cons.prems by simp_all
  have ne: "?row \<noteq> []" by simp
  have hdr: "hd ?row = hd (S i)" using plainText_facts(1)[OF pl(1)] by simp
  have lastr: "last ?row = last (T i)" using plainText_facts(1)[OF pl(4)] by simp
  have tr: "trim ?row = ?row"
    using plainText_facts(5)[OF pl(1)] plainText_facts(6)[OF pl(4)] hdr lastr
    by (intro trim_id) simp_all
  have sp: "splitComma ?row = [S i, W i, P i, T i]"
    using splitComma_field[OF plainText_facts(4)[OF pl(1)]]
      splitComma_field[OF plainText_facts(4)[OF pl(2)]]
      splitComma_field[OF plainText_facts(4)[OF pl(3)]]
      splitComma_plain[OF plainText_facts(4)[OF pl(4)]]
    by simp
  have ih: "parseRows ops (map (\<lambda>i. S i @ '','' @ W i @ '','' @ P i @ '','' @ T i) xs @ blanks)
              = map (\<lambda>i. stringToNum ops (W i)) xs"
    using Cons.IH Cons.prems by simp
  have "parseRows ops (?row # (map (\<lambda>i. S i @ '','' @ W i @ '','' @ P i @ '','' @ T i) xs @ blanks))
          = stringToNum ops (W i) # map (\<lambda>i. stringToNum ops (W i)) xs"
    unfolding parseRows.simps tr Let_def sp ih using ne by simp
  then show ?case by simp
qed

lemma scanConfig_skip_comment:
  "scanConfig (''# BeamformerConfig'' # ls) m = scanConfig ls m"
  by (simp add: trim_def isSpace_def startsWith_def)

lemma scanConfig_skip_blank: "scanConfig ([] # ls) m = scanConfig ls m"
  by (simp add: trim_empty)

lemma scanConfig_header: "scanConfig (dataHeader # ls) m = (m, Some ls)"
  by (simp add: trim_def isSpace_def startsWith_def dataHeader_def)

lemma plainText_undefined: "plainText ''undefined''"
  by (simp add: plainText_def isSpace_def)

lemma optToString_cases:
  "optToString ops x = [] \<and> x = None \<or> (\<exists>v. x = Some v \<and> optToString ops x = numToString ops v)"
  by (cases x) (simp_all add: optToString_def)

lemma scanConfig_keys:
  assumes "\<forall>(k, v) \<in> set kvs. plainText k \<and> hd k \<noteq> CHR ''#'' \<and> hd k \<noteq> CHR ''i''
              \<and> (v = [] \<or> plainText v)"
  shows "scanConfig (map (\<lambda>(k, v). k @ CHR '','' # v) kvs @ ls) m
           = scanConfig ls (foldl (\<lambda>m (k, v). m(k \<mapsto> v)) m kvs)"
  using assms
proof (induction kvs arbitrary: m)
  case Nil
  then show ?case by simp
next
  case (Cons kv kvs)
  obtain k v where kv: "kv = (k, v)" by (cases kv)
  have "scanConfig ((k @ CHR '','' # v) # (map (\<lambda>(k, v). k @ CHR '','' # v) kvs @ ls)) m
          = scanConfig (map (\<lambda>(k, v). k @ CHR '','' # v) kvs @ ls) (m(k \<mapsto> v))"
    using Cons.prems kv by (intro scanConfig_key) auto
  also have "\<dots> = scanConfig ls (foldl (\<lambda>m (k, v). m(k \<mapsto> v)) (m(k \<mapsto> v)) kvs)"
    using Cons.prems by (intro Cons.IH) auto
  finally have step: "scanConfig ((k @ CHR '','' # v) # (map (\<lambda>(k, v). k @ CHR '','' # v) kvs @ ls)) m
      = scanConfig ls (foldl (\<lambda>m (k, v). m(k \<mapsto> v)) (m(k \<mapsto> v)) kvs)" .
  have l: "map (\<lambda>(k, v). k @ CHR '','' # v) (kv # kvs) @ ls
             = (k @ CHR '','' # v) # (map (\<lambda>(k, v). k @ CHR '','' # v) kvs @ ls)"
    by (simp only: kv list.map prod.case append_Cons)
  have r: "foldl (\<lambda>m (k, v). m(k \<mapsto> v)) m (kv # kvs)
             = foldl (\<lambda>m (k, v). m(k \<mapsto> v)) (m(k \<mapsto> v)) kvs"
    by (simp only: kv foldl_Cons prod.case)
  show ?case unfolding l r by (rule step)
qed

subsection \<open>Every supported window but one has a nonzero weight\<close>

lemma cos_sum_zero:
  assumes "0 < k" "k < N"
  shows "(\<Sum>n<N. cos ((2 * pi * real k * real n) / real N)) = 0"
proof -
  define t where "t = 2 * pi * real k / real N"
  have Npos: "0 < real N" using assms by simp
  have ne1: "cis t \<noteq> 1"
  proof
    assume "cis t = 1"
    then have "cos t = 1" by (simp add: complex_eq_iff)
    then obtain m :: int where m: "t = of_int m * 2 * pi" using cos_one_2pi_int by blast
    have "t = (real k / real N) * (2 * pi)" by (simp add: t_def)
    then have "(real k / real N) * (2 * pi) = of_int m * (2 * pi)" using m by simp
    then have "real k / real N = of_int m" by (simp only: mult_cancel_right) simp
    then have "real k = of_int m * real N" using Npos by (simp add: field_simps)
    then have "real_of_int (int k) = real_of_int (m * int N)" by simp
    then have "int k = m * int N" by (simp only: of_int_eq_iff)
    moreover have "0 < int k" "int k < int N" using assms by simp_all
    ultimately have "0 < m * int N" "m * int N < int N" by simp_all
    then have "0 < m" "m < 1" using Npos by (simp_all add: zero_less_mult_iff)
    then show False by simp
  qed
  have "real N * t = 2 * pi * real k" using Npos by (simp add: t_def)
  then have pw: "cis t ^ N = 1" by (simp add: DeMoivre)
  have "(\<Sum>n<N. cis t ^ n) = 0" using ne1 pw by (simp add: sum_gp_strict)
  then have "Re (\<Sum>n<N. cis t ^ n) = 0" by simp
  then have "(\<Sum>n<N. cos (real n * t)) = 0" by (simp add: DeMoivre)
  moreover have "\<And>n. real n * t = (2 * pi * real k * real n) / real N" by (simp add: t_def)
  ultimately show ?thesis by simp
qed

lemma foldl_plus: "foldl (\<lambda>s k. s + f k) a xs = a + sum_list (map f xs)"
  by (induction xs arbitrary: a) (simp_all add: add.assoc)

lemma symStep_inv:
  assumes len: "length wc = N" and i: "i < N"
    and nn: "\<forall>x \<in> set wc. 0 \<le> x" and pos: "\<exists>x \<in> set wc. 0 < x"
  shows "length (symStep N wc i) = N \<and> (\<forall>x \<in> set (symStep N wc i). 0 \<le> x)
         \<and> (\<exists>x \<in> set (symStep N wc i). 0 < x)"
proof -
  define j where "j = N - 1 - i"
  define avg where "avg = 0.5 * (wc ! i + wc ! j)"
  have j: "j < N" using i by (simp add: j_def)
  have st: "symStep N wc i = (wc[j := avg])[i := avg]"
    by (simp add: symStep_def Let_def j_def avg_def)
  have nni: "0 \<le> wc ! i" "0 \<le> wc ! j" using nn len i j by simp_all
  then have avg0: "0 \<le> avg" by (simp add: avg_def)
  have "set ((wc[j := avg])[i := avg]) \<subseteq> insert avg (set (wc[j := avg]))"
    by (rule set_update_subset_insert)
  moreover have "set (wc[j := avg]) \<subseteq> insert avg (set wc)"
    by (rule set_update_subset_insert)
  ultimately have sub: "set ((wc[j := avg])[i := avg]) \<subseteq> insert avg (set wc)"
    by blast
  have c2: "\<forall>x \<in> set (symStep N wc i). 0 \<le> x"
    unfolding st using sub nn avg0 by auto
  obtain p where p: "p < N" "0 < wc ! p" using pos len by (auto simp: in_set_conv_nth)
  have c3: "\<exists>x \<in> set (symStep N wc i). 0 < x"
  proof (cases "p = i \<or> p = j")
    case True
    then have "0 < avg" using p(2) nni by (auto simp: avg_def)
    moreover have "(wc[j := avg])[i := avg] ! i = avg" using i len by simp
    moreover have "(wc[j := avg])[i := avg] ! i \<in> set ((wc[j := avg])[i := avg])"
      by (rule nth_mem) (simp add: len i)
    ultimately show ?thesis unfolding st by auto
  next
    case False
    then have "(wc[j := avg])[i := avg] ! p = wc ! p" by simp
    moreover have "(wc[j := avg])[i := avg] ! p \<in> set ((wc[j := avg])[i := avg])"
      by (rule nth_mem) (simp add: len p)
    ultimately show ?thesis unfolding st using p(2) by auto
  qed
  show ?thesis using c2 c3 len by (simp add: st)
qed

lemma foldl_symStep_inv:
  assumes "length wc = N" "\<forall>i \<in> set xs. i < N"
    "\<forall>x \<in> set wc. 0 \<le> x" "\<exists>x \<in> set wc. 0 < x"
  shows "\<exists>x \<in> set (foldl (symStep N) wc xs). 0 < x"
  using assms
proof (induction xs arbitrary: wc)
  case Nil
  then show ?case by simp
next
  case (Cons i xs)
  have "i < N" using Cons.prems(2) by simp
  from symStep_inv[OF Cons.prems(1) this Cons.prems(3,4)]
  show ?case using Cons.IH[of "symStep N wc i"] Cons.prems(2) by simp
qed

lemma idft_sum:
  fixes y :: "nat \<Rightarrow> real"
  assumes N: "2 \<le> N"
  shows "(\<Sum>n<N.
      (let s0 = y 0;
           s1 = foldl (\<lambda>s k. s + 2 * y k * cos ((2 * pi * real k * real n) / real N)) s0 [1..<N div 2];
           s2 = (if even N then s1 + y (N div 2) * cos (pi * real n) else s1)
       in s2 / real N)) = y 0"
proof -
  define wn where "wn = (\<lambda>n.
      (let s0 = y 0;
           s1 = foldl (\<lambda>s k. s + 2 * y k * cos ((2 * pi * real k * real n) / real N)) s0 [1..<N div 2];
           s2 = (if even N then s1 + y (N div 2) * cos (pi * real n) else s1)
       in s2 / real N))"
  define g where "g = (\<lambda>k n. 2 * y k * cos ((2 * pi * real k * real n) / real N))"
  define E where "E = (\<lambda>n. if even N then y (N div 2) * cos (pi * real n) else 0)"
  have Npos: "0 < real N" using N by simp
  have wn: "wn n = (y 0 + (\<Sum>k\<in>{1..<N div 2}. g k n) + E n) / real N" for n
  proof -
    have "foldl (\<lambda>s k. s + g k n) (y 0) [1..<N div 2] = y 0 + sum_list (map (\<lambda>k. g k n) [1..<N div 2])"
      by (rule foldl_plus)
    also have "sum_list (map (\<lambda>k. g k n) [1..<N div 2]) = (\<Sum>k\<in>{1..<N div 2}. g k n)"
      by (simp add: interv_sum_list_conv_sum_set_nat)
    finally show ?thesis by (simp add: wn_def Let_def g_def E_def)
  qed
  have gz: "(\<Sum>n<N. g k n) = 0" if "k \<in> {1..<N div 2}" for k
  proof -
    have "0 < k" "k < N" using that by auto
    then have "(\<Sum>n<N. cos ((2 * pi * real k * real n) / real N)) = 0" by (rule cos_sum_zero)
    then show ?thesis by (simp add: g_def sum_distrib_left[symmetric])
  qed
  have Ez: "(\<Sum>n<N. E n) = 0"
  proof (cases "even N")
    case False
    then show ?thesis by (simp add: E_def)
  next
    case True
    then obtain h where h: "N = 2 * h" by (auto elim: evenE)
    have hpos: "0 < h" "h < N" using N h by simp_all
    have "cos (pi * real n) = cos ((2 * pi * real h * real n) / real N)" for n
      using hpos by (simp add: h)
    then have "(\<Sum>n<N. cos (pi * real n)) = (\<Sum>n<N. cos ((2 * pi * real h * real n) / real N))"
      by simp
    also have "\<dots> = 0" using hpos by (rule cos_sum_zero)
    finally have "(\<Sum>n<N. cos (pi * real n)) = 0" .
    then have "(\<Sum>n<N. y (N div 2) * cos (pi * real n)) = 0"
      by (simp only: sum_distrib_left[symmetric] mult_zero_right)
    then show ?thesis using True by (simp add: E_def)
  qed
  have "(\<Sum>n<N. wn n) = (\<Sum>n<N. y 0 + (\<Sum>k\<in>{1..<N div 2}. g k n) + E n) / real N"
    by (simp add: wn sum_divide_distrib)
  also have "(\<Sum>n<N. y 0 + (\<Sum>k\<in>{1..<N div 2}. g k n) + E n)
      = real N * y 0 + (\<Sum>n<N. \<Sum>k\<in>{1..<N div 2}. g k n) + (\<Sum>n<N. E n)"
    by (simp add: sum.distrib)
  also have "(\<Sum>n<N. \<Sum>k\<in>{1..<N div 2}. g k n) = (\<Sum>k\<in>{1..<N div 2}. \<Sum>n<N. g k n)"
    by (rule sum.swap)
  also have "\<dots> = 0" using gz by simp
  finally have "(\<Sum>n<N. wn n) = y 0" using Npos Ez by simp
  then show ?thesis by (simp only: wn_def)
qed

lemma Tm_at_beta_pos:
  assumes "1 \<le> b"
  shows "0 < Tm M b"
proof (cases "\<bar>b\<bar> \<le> 1 + 1 / 10 ^ 12")
  case True
  have "max (- 1) (min 1 b) = 1" using assms by simp
  then show ?thesis using True by (simp add: Tm_def Let_def)
next
  case False
  have "\<not> b < 0" using assms by simp
  then show ?thesis using False by (simp add: Tm_def Let_def)
qed

lemma chebyshevWindow_has_positive:
  assumes "1 \<le> N" and "db = 30"
  shows "\<exists>x \<in> set (chebyshevWindow N db). 0 < x"
proof (cases "N \<le> 1 \<or> \<not> isFiniteNum (10 powr (db / 20)) \<or> 10 powr (db / 20) \<le> 1")
  case True
  have "(0::nat) < N" using assms by simp
  then have "\<exists>x. x < N" by blast
  then show ?thesis using True assms by (auto simp: chebyshevWindow_def Let_def)
next
  case False
  then have N2: "2 \<le> N" and A: "\<not> 10 powr (db / 20) \<le> 1"
    and Afin: "isFiniteNum (10 powr (db / 20))" by simp_all
  define M where "M = N - 1"
  define beta where "beta = cosh (acosh (10 powr (db / 20)) / real M)"
  define TMbeta where "TMbeta = cosh (real M * acosh beta)"
  define Y where "Y = map (\<lambda>k. Tm M (beta * cos (pi * real k / real N)) / TMbeta) [0..<N]"
  define wn where "wn = (\<lambda>n.
      (let s0 = Y ! 0;
           s1 = foldl (\<lambda>s k. s + 2 * (Y ! k) * cos ((2 * pi * real k * real n) / real N)) s0 [1..<N div 2];
           s2 = (if even N then s1 + (Y ! (N div 2)) * cos (pi * real n) else s1)
       in s2 / real N))"
  define w where "w = map wn [0..<N]"
  define inv where "inv = (case mathMax (map abs w) of Some m \<Rightarrow> if 0 < m then 1 / m else 1 | None \<Rightarrow> 1)"
  define w2 where "w2 = map (\<lambda>v. if v < 0 then 0 else v) (map (\<lambda>v. v * inv) w)"
  define wc where "wc = map (\<lambda>i. w2 ! ((i + N div 2) mod N)) [0..<N]"
  have cheb: "chebyshevWindow N db = foldl (symStep N) wc [0..<N div 2]"
    using False
    unfolding chebyshevWindow_def Let_def wc_def w2_def inv_def w_def wn_def Y_def TMbeta_def
      beta_def M_def
    by simp
  have "1 \<le> beta" unfolding beta_def by (rule cosh_real_ge_1)
  then have "0 < Tm M beta" by (rule Tm_at_beta_pos)
  moreover have "0 < TMbeta" unfolding TMbeta_def by simp
  moreover have "Y ! 0 = Tm M beta / TMbeta" using N2 by (simp add: Y_def)
  ultimately have Y0: "0 < Y ! 0" by simp
  have "(\<Sum>n<N. wn n) = Y ! 0"
    unfolding wn_def by (rule idft_sum[OF N2, of "(!) Y"])
  then have sumpos: "0 < (\<Sum>n<N. wn n)" using Y0 by simp
  have "\<exists>n<N. 0 < wn n"
  proof (rule ccontr)
    assume neg: "\<not> (\<exists>n<N. 0 < wn n)"
    have "wn k \<le> 0" if "k \<in> {..<N}" for k
    proof -
      have "k < N" using that by simp
      then have "\<not> 0 < wn k" using neg by blast
      then show ?thesis by simp
    qed
    then have "(\<Sum>n<N. wn n) \<le> 0" by (rule sum_nonpos)
    then show False using sumpos by simp
  qed
  then obtain n where n: "n < N" "0 < wn n" by blast
  have lw: "length w = N" by (simp add: w_def)
  have wne: "map abs w \<noteq> []" using lw N2 by auto
  define m where "m = Max (set (map abs w))"
  have mm: "mathMax (map abs w) = Some m" unfolding m_def by (rule mathMax_Some[OF wne])
  have "w ! n = wn n" using n by (simp add: w_def)
  then have "\<bar>wn n\<bar> \<in> set (map abs w)" using n lw by (metis length_map nth_map nth_mem)
  then have "\<bar>wn n\<bar> \<le> m" unfolding m_def by (intro Max_ge) simp_all
  then have mpos: "0 < m" using n(2) by linarith
  have invpos: "0 < inv" using mm mpos by (simp add: inv_def)
  have lw2: "length w2 = N" by (simp add: w2_def lw)
  have w2nn: "\<forall>x \<in> set w2. 0 \<le> x" by (auto simp: w2_def)
  have prod: "0 < wn n * inv" using n(2) invpos by (rule mult_pos_pos)
  have w2n: "0 < w2 ! n" using n(1) prod lw by (simp add: w2_def w_def not_less[symmetric] less_imp_le)
  have lwc: "length wc = N" by (simp add: wc_def)
  have wcnn: "\<forall>x \<in> set wc. 0 \<le> x"
  proof
    fix x assume "x \<in> set wc"
    then obtain i where "i < N" "x = w2 ! ((i + N div 2) mod N)" by (auto simp: wc_def)
    moreover have "(i + N div 2) mod N < N" using N2 by simp
    ultimately show "0 \<le> x" using w2nn lw2 by (metis nth_mem)
  qed
  define i0 where "i0 = (n + N - N div 2) mod N"
  have i0: "i0 < N" using N2 by (simp add: i0_def)
  have "(i0 + N div 2) mod N = (n + N - N div 2 + N div 2) mod N"
    unfolding i0_def by (simp add: mod_add_left_eq)
  also have "n + N - N div 2 + N div 2 = n + N" by simp
  also have "(n + N) mod N = n" using n(1) by simp
  finally have "wc ! i0 = w2 ! n" using i0 by (simp add: wc_def)
  then have "0 < wc ! i0" using w2n by simp
  then have wcpos: "\<exists>x \<in> set wc. 0 < x" using i0 lwc by (metis nth_mem)
  have idx: "\<forall>i \<in> set [0..<N div 2]. i < N" by auto
  show ?thesis unfolding cheb by (rule foldl_symStep_inv[OF lwc idx wcnn wcpos])
qed

lemma triangularWindow_nonzero:
  assumes "1 \<le> N" "N \<noteq> 2"
  shows "\<exists>v \<in> set (triangularWindow N). v \<noteq> 0"
proof (cases "N \<le> 1")
  case True
  then show ?thesis by (simp add: triangularWindow_def)
next
  case False
  then have N3: "3 \<le> N" using assms by simp
  define M where "M = real (N - 1)"
  have M2: "2 \<le> M" using N3 by (simp add: M_def)
  have "(1 - M / 2) / (M / 2) = 2 / M - 1" using M2 by (simp add: field_simps)
  moreover have "2 / M \<le> 1" using M2 by simp
  moreover have "0 < 2 / M" using M2 by simp
  ultimately have "1 - \<bar>(real 1 - M / 2) / (M / 2)\<bar> = 2 / M" by simp
  then have pos: "1 - \<bar>(real 1 - M / 2) / (M / 2)\<bar> \<noteq> 0" using \<open>0 < 2 / M\<close> by simp
  have "(1::nat) \<in> set [0..<N]" using N3 by simp
  then have "1 - \<bar>(real 1 - M / 2) / (M / 2)\<bar> \<in> set (triangularWindow N)"
    using False unfolding triangularWindow_def Let_def M_def
    by (simp only: if_False set_map) (rule imageI)
  then show ?thesis using pos by blast
qed

lemma rectangularWindow_replicate: "rectangularWindow N = replicate N 1"
  by (simp add: rectangularWindow_def map_replicate_const)

lemma rectangularWindow_max: "1 \<le> N \<Longrightarrow> mathMax (map abs (rectangularWindow N)) = Some 1"
proof -
  assume N: "1 \<le> N"
  then have ne: "map abs (rectangularWindow N) \<noteq> []" by (auto simp: rectangularWindow_replicate)
  have "set (map abs (rectangularWindow N)) = {1}"
    using N by (simp add: rectangularWindow_replicate)
  then show ?thesis using mathMax_Some[OF ne] by simp
qed

lemma makeWindow_nonzero:
  assumes "t \<in> {''rectangular'', ''hamming'', ''triangular'', ''chebyshev''}"
    and "1 \<le> N" and "\<not> (t = ''triangular'' \<and> N = 2)" and "db = 30"
  shows "\<exists>v \<in> set (makeWindow t N db). v \<noteq> 0"
proof -
  consider "t = ''rectangular''" | "t = ''hamming''" | "t = ''triangular''" | "t = ''chebyshev''"
    using assms(1) by auto
  then show ?thesis
  proof cases
    case 1
    have "(1::real) \<in> set (rectangularWindow N)"
      using assms(2) by (simp add: rectangularWindow_replicate)
    moreover have "(1::real) \<noteq> 0" by simp
    ultimately have "\<exists>v \<in> set (rectangularWindow N). v \<noteq> 0" by blast
    then show ?thesis using 1 by (simp add: makeWindow_def)
  next
    case 2
    then show ?thesis using hammingWindow_nonzero[of N] by (simp add: makeWindow_def)
  next
    case 3
    then show ?thesis using triangularWindow_nonzero[of N] assms(2,3) by (simp add: makeWindow_def)
  next
    case 4
    obtain x where "x \<in> set (chebyshevWindow N db)" "0 < x"
      using chebyshevWindow_has_positive[OF assms(2) assms(4)] by blast
    then have "\<exists>v \<in> set (chebyshevWindow N db). v \<noteq> 0" by force
    then show ?thesis using 4 by (simp add: makeWindow_def)
  qed
qed

section \<open>Claims\<close>

text \<open>
  C1, in the form that holds. \<open>makeWindow\<close> does not normalize; \<open>computeWeights\<close> does. For every
  window type among rectangular, hamming, triangular and chebyshev, at the default
  sidelobe level of 30 dB (\<open>chebyshevSidelobeDb\<close> absent or 30), and every \<open>N \<ge> 1\<close>,
  except the triangular window of \<open>N = 2\<close>, the vector \<open>computeWeights\<close> returns for a
  config of that type and size is the vector of \<open>makeWindow(type, N)\<close> divided by its
  largest absolute value, and its largest absolute value is 1. The vector of
  \<open>makeWindow(type, N)\<close> itself has largest absolute value 1 for the rectangular type,
  and for every type at \<open>N = 1\<close>.
\<close>

theorem computeWeights_max_abs_one:
  assumes "windowType cfg \<in> {''rectangular'', ''hamming'', ''triangular'', ''chebyshev''}"
    and "1 \<le> elements cfg"
    and "\<not> (windowType cfg = ''triangular'' \<and> elements cfg = 2)"
    and "chebyshevSidelobeDb cfg = None \<or> chebyshevSidelobeDb cfg = Some 30"
  shows "computeWeights cfg = normalizeMax (makeWindow (windowType cfg) (elements cfg) 30)
       \<and> mathMax (map abs (computeWeights cfg)) = Some 1
       \<and> mathMax (map abs (makeWindow ''rectangular'' (elements cfg) 30)) = Some 1
       \<and> mathMax (map abs (makeWindow (windowType cfg) 1 30)) = Some 1"
proof -
  have db: "(case chebyshevSidelobeDb cfg of Some v \<Rightarrow> v | None \<Rightarrow> 30) = 30"
    using assms(4) by auto
  have nc: "windowType cfg \<noteq> ''custom''" using assms(1) by auto
  then have cw: "chosenWindow cfg = makeWindow (windowType cfg) (elements cfg) 30"
    by (simp add: chosenWindow_def Let_def db)
  have a: "computeWeights cfg = normalizeMax (makeWindow (windowType cfg) (elements cfg) 30)"
    by (simp add: computeWeights_def cw)
  have b: "mathMax (map abs (computeWeights cfg)) = Some 1"
    unfolding a by (rule normalizeMax_max[OF makeWindow_nonzero[OF assms(1,2,3) refl]])
  have c: "mathMax (map abs (makeWindow ''rectangular'' (elements cfg) 30)) = Some 1"
    using rectangularWindow_max[OF assms(2)] by (simp add: makeWindow_def)
  have "makeWindow (windowType cfg) 1 30 = [1]"
    using assms(1)
    by (auto simp: makeWindow_def rectangularWindow_def hammingWindow_def triangularWindow_def
        chebyshevWindow_def)
  then have d: "mathMax (map abs (makeWindow (windowType cfg) 1 30)) = Some 1" by simp
  show ?thesis using a b c d by blast
qed

theorem computeWeights_max_abs_one_witness:
  "mathMax (map abs (computeWeights \<lparr> elements = 2, spacing = 1 / 2, spacingUnit = ''wavelength'',
       frequencyHz = 1000000, waveSpeed = 1540, steerAngleDeg = 0, windowType = ''hamming'',
       chebyshevSidelobeDb = None, focusDepth = None, customWeights = None \<rparr>)) = Some 1"
proof -
  let ?cfg = "\<lparr> elements = 2, spacing = 1 / 2, spacingUnit = ''wavelength'',
       frequencyHz = 1000000, waveSpeed = 1540, steerAngleDeg = 0, windowType = ''hamming'',
       chebyshevSidelobeDb = None, focusDepth = None, customWeights = None \<rparr>
       :: (nat, real) ProfileConfig"
  have h1: "windowType ?cfg \<in> {''rectangular'', ''hamming'', ''triangular'', ''chebyshev''}"
    by simp
  have h2: "1 \<le> elements ?cfg" by simp
  have h3: "\<not> (windowType ?cfg = ''triangular'' \<and> elements ?cfg = 2)" by simp
  have h4: "chebyshevSidelobeDb ?cfg = None \<or> chebyshevSidelobeDb ?cfg = Some 30" by simp
  from computeWeights_max_abs_one[OF h1 h2 h3 h4] show ?thesis by blast
qed

text \<open>
  C1 as stated fails: \<open>makeWindow("hamming", 2)\<close> is \<open>[0.08, 0.08]\<close>, of largest absolute
  value 0.08.
\<close>

theorem makeWindow_hamming2_counterexample:
  "makeWindow ''hamming'' 2 30 = [2 / 25, 2 / 25]
   \<and> mathMax (map abs (makeWindow ''hamming'' 2 30)) \<noteq> Some 1"
  by (simp add: makeWindow_def hammingWindow_def upt_rec)

text \<open>
  C2. For a profile whose \<open>snapshot.weights\<close> has as many entries as \<open>config.elements\<close>
  says, whose \<open>spacingUnit\<close> and \<open>windowType\<close> are of their union types, and whose
  numbers the run-time library prints as plain texts that \<open>Number\<close> reads back,
  \<open>parseCsvConfig(toCsv(profile))\<close> does not throw; its config has the fields
  \<open>elements\<close>, \<open>spacing\<close>, \<open>spacingUnit\<close>, \<open>frequencyHz\<close>, \<open>waveSpeed\<close>, \<open>steerAngleDeg\<close>,
  \<open>windowType\<close>, \<open>focusDepth\<close> and \<open>chebyshevSidelobeDb\<close> of \<open>profile.config\<close> (and the
  weights as \<open>customWeights\<close>), and the returned weights are the profile's, as many
  as \<open>elements\<close>.
\<close>

theorem csv_roundtrip:
  assumes len: "natToNum ops (length (ProfileSnapshot.weights (snapshot p)))
                  = elements (BeamformFullProfile.config p)"
    and su: "spacingUnit (BeamformFullProfile.config p) \<in> {''wavelength'', ''meters''}"
    and wt: "windowType (BeamformFullProfile.config p)
               \<in> {''rectangular'', ''hamming'', ''triangular'', ''chebyshev'', ''custom''}"
    and pr: "\<forall>x \<in> set (printedNumbers ops p). printsBack ops x"
  shows "\<exists>r. parseCsvConfig ops (toCsv ops p) = Inr r
           \<and> ParsedCsv.config r = (BeamformFullProfile.config p)
                \<lparr> customWeights := Some (ProfileSnapshot.weights (snapshot p)) \<rparr>
           \<and> ParsedCsv.weights r = ProfileSnapshot.weights (snapshot p)
           \<and> natToNum ops (length (ParsedCsv.weights r)) = elements (ParsedCsv.config r)"
proof -
  define cfg where "cfg = BeamformFullProfile.config p"
  define ws where "ws = ProfileSnapshot.weights (snapshot p)"
  define ds where "ds = delays (snapshot p)"
  define S where "S = (\<lambda>i. numToString ops (natToNum ops i))"
  define W where "W = (\<lambda>i. numToString ops (ws ! i))"
  define P where "P = (\<lambda>i. cellToString ops (phaseRadians ds) i)"
  define T where "T = (\<lambda>i. cellToString ops (timeDelays ds) i)"
  define rows where "rows = map (\<lambda>i. S i @ '','' @ W i @ '','' @ P i @ '','' @ T i) [0..<length ws]"
  define cwText where "cwText = (case customWeights cfg of None \<Rightarrow> [] | Some _ \<Rightarrow> ''present'')"
  define kvs where "kvs =
      [ (''elements'', numToString ops (elements cfg)),
        (''spacing'', numToString ops (spacing cfg)),
        (''spacingUnit'', spacingUnit cfg),
        (''frequencyHz'', numToString ops (frequencyHz cfg)),
        (''waveSpeed'', numToString ops (waveSpeed cfg)),
        (''steerAngleDeg'', numToString ops (steerAngleDeg cfg)),
        (''windowType'', windowType cfg),
        (''focusDepth'', optToString ops (focusDepth cfg)),
        (''chebyshevSidelobeDb'', optToString ops (chebyshevSidelobeDb cfg)),
        (''customWeights'', cwText) ]"
  define keyLines where "keyLines = map (\<lambda>(k, v). k @ CHR '','' # v) kvs"
  define H where "H = ''# BeamformerConfig'' # keyLines @ [[], dataHeader]"
  have printed: "printsBack ops x" if "x \<in> set (printedNumbers ops p)" for x
    using pr that by blast
  have pn: "set (printedNumbers ops p) =
      {elements cfg, spacing cfg, frequencyHz cfg, waveSpeed cfg, steerAngleDeg cfg}
      \<union> set_option (focusDepth cfg) \<union> set_option (chebyshevSidelobeDb cfg)
      \<union> natToNum ops ` {..<length ws} \<union> set ws \<union> set (phaseRadians ds) \<union> set (timeDelays ds)"
    by (auto simp: printedNumbers_def Let_def cfg_def ws_def ds_def split: option.splits)
  have pb: "plainText (numToString ops x)" "stringToNum ops (numToString ops x) = x"
    if "x \<in> set (printedNumbers ops p)" for x
    using printed[OF that] by (simp_all add: printsBack_def)
  have p_el: "elements cfg \<in> set (printedNumbers ops p)"
    and p_sp: "spacing cfg \<in> set (printedNumbers ops p)"
    and p_fr: "frequencyHz cfg \<in> set (printedNumbers ops p)"
    and p_ws: "waveSpeed cfg \<in> set (printedNumbers ops p)"
    and p_st: "steerAngleDeg cfg \<in> set (printedNumbers ops p)"
    unfolding pn by simp_all
  have p_opt: "v \<in> set (printedNumbers ops p)"
    if "focusDepth cfg = Some v \<or> chebyshevSidelobeDb cfg = Some v" for v
    unfolding pn using that by auto
  have p_idx: "natToNum ops i \<in> set (printedNumbers ops p)" if "i < length ws" for i
    unfolding pn using that by auto
  have p_w: "ws ! i \<in> set (printedNumbers ops p)" if "i < length ws" for i
    unfolding pn using that by auto
  have p_cell: "plainText (cellToString ops xs i)"
    if "xs = phaseRadians ds \<or> xs = timeDelays ds" for xs i
  proof (cases "i < length xs")
    case True
    then have "xs ! i \<in> set (printedNumbers ops p)" unfolding pn using that by auto
    then show ?thesis using True pb(1) by (simp add: cellToString_def)
  next
    case False
    then show ?thesis by (simp add: cellToString_def plainText_undefined)
  qed
  have optPlain: "optToString ops x = [] \<or> plainText (optToString ops x)"
    if "x = focusDepth cfg \<or> x = chebyshevSidelobeDb cfg" for x
    using optToString_cases[of ops x] that pb(1) p_opt by metis
  have suPlain: "plainText (spacingUnit cfg)"
    using su by (auto simp: cfg_def plainText_def isSpace_def)
  have wtPlain: "plainText (windowType cfg)"
    using wt by (auto simp: cfg_def plainText_def isSpace_def)
  have cwPlain: "cwText = [] \<or> plainText cwText"
    by (simp add: cwText_def plainText_def isSpace_def split: option.splits)

  have csv: "toCsv ops p = joinWith [LF] H @ LF # (joinWith [LF] rows @ [LF])"
    by (simp add: toCsv_def Let_def H_def keyLines_def kvs_def rows_def cfg_def ws_def ds_def
        S_def W_def P_def T_def cwText_def)

  have nb: "LF \<notin> set s \<and> CR \<notin> set s" if "s = [] \<or> plainText s" for s
    using that plainText_facts(2,3)[of s] by auto
  have nbLit: "LF \<notin> set s \<and> CR \<notin> set s"
    if "s \<in> {''# BeamformerConfig'', dataHeader, ''elements'', ''spacing'', ''spacingUnit'',
               ''frequencyHz'', ''waveSpeed'', ''steerAngleDeg'', ''windowType'', ''focusDepth'',
               ''chebyshevSidelobeDb'', ''customWeights'', '',''}" for s
    using that by (auto simp: LF_def CR_def dataHeader_def)
  have Hnb: "\<forall>l \<in> set H. LF \<notin> set l \<and> CR \<notin> set l"
    unfolding H_def keyLines_def kvs_def
    using nb[of "numToString ops (elements cfg)"] nb[of "numToString ops (spacing cfg)"]
      nb[of "spacingUnit cfg"] nb[of "numToString ops (frequencyHz cfg)"]
      nb[of "numToString ops (waveSpeed cfg)"] nb[of "numToString ops (steerAngleDeg cfg)"]
      nb[of "windowType cfg"] nb[of "optToString ops (focusDepth cfg)"]
      nb[of "optToString ops (chebyshevSidelobeDb cfg)"] nb[of cwText]
      pb(1)[OF p_el] pb(1)[OF p_sp] pb(1)[OF p_fr] pb(1)[OF p_ws] pb(1)[OF p_st]
      suPlain wtPlain optPlain cwPlain
    by (simp add: LF_def CR_def dataHeader_def)
  have rowPlain: "plainText (S i) \<and> plainText (W i) \<and> plainText (P i) \<and> plainText (T i)"
    if "i < length ws" for i
    using pb(1)[OF p_idx[OF that]] pb(1)[OF p_w[OF that]] p_cell
    by (simp add: S_def W_def P_def T_def)
  have rowsnb: "\<forall>l \<in> set rows. LF \<notin> set l \<and> CR \<notin> set l"
  proof
    fix l assume "l \<in> set rows"
    then obtain i where i: "i < length ws" "l = S i @ '','' @ W i @ '','' @ P i @ '','' @ T i"
      by (auto simp: rows_def)
    show "LF \<notin> set l \<and> CR \<notin> set l"
      unfolding i(2) using rowPlain[OF i(1)] nb nbLit[of "'',''"] by simp
  qed
  have Hne: "H \<noteq> []" by (simp add: H_def)
  have lines: "splitLines (toCsv ops p) = H @ splitLines (joinWith [LF] rows @ [LF])"
    unfolding csv by (rule splitLines_join[OF Hne Hnb])
  obtain blanks where blanks: "splitLines (joinWith [LF] rows @ [LF]) = rows @ blanks"
    "\<forall>b \<in> set blanks. b = []"
  proof (cases "rows = []")
    case True
    then have "splitLines (joinWith [LF] rows @ [LF]) = rows @ [[], []]" by simp
    then show ?thesis using that by simp
  next
    case False
    have "splitLines (joinWith [LF] rows @ LF # []) = rows @ splitLines []"
      by (rule splitLines_join[OF False rowsnb])
    then show ?thesis using that[of "[[]]"] by simp
  qed
  define M where "M = foldl (\<lambda>m (k, v). m(k \<mapsto> v)) Map.empty kvs"
  have kvsOk: "\<forall>(k, v) \<in> set kvs. plainText k \<and> hd k \<noteq> CHR ''#'' \<and> hd k \<noteq> CHR ''i''
              \<and> (v = [] \<or> plainText v)"
    unfolding kvs_def
    using pb(1)[OF p_el] pb(1)[OF p_sp] pb(1)[OF p_fr] pb(1)[OF p_ws] pb(1)[OF p_st]
      suPlain wtPlain optPlain cwPlain
    by (simp add: plainText_def isSpace_def)
  have "scanConfig (H @ rows @ blanks) Map.empty
          = scanConfig (keyLines @ ([] # dataHeader # rows @ blanks)) Map.empty"
    by (simp only: H_def append_Cons append_Nil append_assoc scanConfig_skip_comment)
  also have "\<dots> = scanConfig ([] # dataHeader # rows @ blanks) M"
    unfolding keyLines_def M_def by (rule scanConfig_keys[OF kvsOk])
  also have "\<dots> = (M, Some (rows @ blanks))"
    by (simp only: scanConfig_skip_blank scanConfig_header)
  finally have scan: "scanConfig (H @ rows @ blanks) Map.empty = (M, Some (rows @ blanks))" .
  have weights: "parseRows ops (rows @ blanks) = ws"
  proof -
    have "parseRows ops (rows @ blanks) = map (\<lambda>i. stringToNum ops (W i)) [0..<length ws]"
      unfolding rows_def
      by (rule parseRows_rows[OF _ blanks(2)]) (use rowPlain in simp)
    also have "\<dots> = map (\<lambda>i. ws ! i) [0..<length ws]"
      using pb(2)[OF p_w] by (simp add: W_def)
    also have "\<dots> = ws" by (rule map_nth)
    finally show ?thesis .
  qed
  have optBack: "(if optToString ops x = [] then None else Some (stringToNum ops (optToString ops x))) = x"
    if "x = focusDepth cfg \<or> x = chebyshevSidelobeDb cfg" for x
  proof (cases x)
    case None
    then show ?thesis by (simp add: optToString_def)
  next
    case (Some v)
    then have "v \<in> set (printedNumbers ops p)" using that p_opt by auto
    then show ?thesis using Some pb[of v] plainText_facts(1)[of "numToString ops v"]
      by (simp add: optToString_def)
  qed
  have len': "natToNum ops (length ws) = elements cfg" using len by (simp add: ws_def cfg_def)
  have "parseCsvConfig ops (toCsv ops p)
          = Inr \<lparr> ParsedCsv.config = cfg \<lparr> customWeights := Some ws \<rparr>, ParsedCsv.weights = ws \<rparr>"
    unfolding parseCsvConfig_def lines blanks(1) Let_def scan
    using pb(2)[OF p_el] pb(2)[OF p_sp] pb(2)[OF p_fr] pb(2)[OF p_ws] pb(2)[OF p_st]
      optBack len'
    by (simp add: weights M_def kvs_def)
  then show ?thesis using len' by (simp add: cfg_def ws_def)
qed

theorem csv_roundtrip_witness:
  "\<exists>r. parseCsvConfig natOps (toCsv natOps
        \<lparr> BeamformFullProfile.config =
            \<lparr> elements = 2, spacing = 1, spacingUnit = ''wavelength'', frequencyHz = 5,
              waveSpeed = 1540, steerAngleDeg = 0, windowType = ''hamming'',
              chebyshevSidelobeDb = None, focusDepth = Some 3, customWeights = None \<rparr>,
          snapshot = \<lparr> ProfileSnapshot.weights = [1, 1],
                       delays = \<lparr> timeDelays = [0, 0], phaseRadians = [0, 0] \<rparr> \<rparr>,
          pattern = [] \<rparr>) = Inr r
     \<and> ParsedCsv.config r =
            \<lparr> elements = 2, spacing = 1, spacingUnit = ''wavelength'', frequencyHz = 5,
              waveSpeed = 1540, steerAngleDeg = 0, windowType = ''hamming'',
              chebyshevSidelobeDb = None, focusDepth = Some 3, customWeights = Some [1, 1] \<rparr>
     \<and> ParsedCsv.weights r = [1, 1]"
  using csv_roundtrip
    [of natOps "\<lparr> BeamformFullProfile.config =
            \<lparr> elements = 2, spacing = 1, spacingUnit = ''wavelength'', frequencyHz = 5,
              waveSpeed = 1540, steerAngleDeg = 0, windowType = ''hamming'',
              chebyshevSidelobeDb = None, focusDepth = Some 3, customWeights = None \<rparr>,
          snapshot = \<lparr> ProfileSnapshot.weights = [1, 1],
                       delays = \<lparr> timeDelays = [0, 0], phaseRadians = [0, 0] \<rparr> \<rparr>,
          pattern = [] \<rparr>"]
  by (simp add: natOps_def printedNumbers_def printsBack_def plainText_def isSpace_def
      stringToNat_def digitChar_def upt_rec) blast

text \<open>
  C3. For a sample matrix of shape \<open>[samples][elements]\<close> and a config whose scanning
  type is not \<open>phased\<close>, the delay-and-sum beamformer returns, without an exception,
  what the plain sum beamformer returns: the vector of row sums, of length \<open>samples\<close>.
  The delay-and-sum beamformer with apodization returns, without an exception, for
  each sample the sum over \<open>e\<close> of \<open>weights[e] * matrix[s][e]\<close>, with the weights of
  \<open>makeWindow\<close>.
\<close>

theorem delaySum_linear_fallback:
  assumes "scanType (scanning cfg) \<noteq> ''phased''"
    and "length matrix = samples (scanning cfg)"
    and "\<forall>row \<in> set matrix. length row = ArrayConfig.elements (array cfg)"
  shows "createDelayAndSumBeamformer matrix i cfg = createSumBeamformer matrix i cfg
       \<and> createSumBeamformer matrix i cfg = Inr (map (\<lambda>row. Some (sum_list row)) matrix)
       \<and> createDelayAndSumApodizedBeamformer opts matrix i cfg
           = Inr (map (\<lambda>row. Some (\<Sum>e<ArrayConfig.elements (array cfg).
                   makeWindow (case ApodizedOptions.windowType opts of Some t \<Rightarrow> t | None \<Rightarrow> ''hamming'')
                     (ArrayConfig.elements (array cfg))
                     (case ApodizedOptions.chebyshevSidelobeDb opts of Some v \<Rightarrow> v | None \<Rightarrow> 30) ! e
                   * row ! e)) matrix)
       \<and> length (map (\<lambda>row. Some (sum_list row)) matrix) = samples (scanning cfg)"
proof -
  let ?els = "ArrayConfig.elements (array cfg)"
  let ?w = "makeWindow (case ApodizedOptions.windowType opts of Some t \<Rightarrow> t | None \<Rightarrow> ''hamming'')
              ?els (case ApodizedOptions.chebyshevSidelobeDb opts of Some v \<Rightarrow> v | None \<Rightarrow> 30)"
  have a: "createDelayAndSumBeamformer matrix i cfg = createSumBeamformer matrix i cfg"
    using assms(1) by (simp add: createDelayAndSumBeamformer_def createSumBeamformer_def)
  have b: "createSumBeamformer matrix i cfg = Inr (map (\<lambda>row. Some (sum_list row)) matrix)"
    using sum_rows[OF assms(3)] assms(2) by (simp add: createSumBeamformer_def)
  have lw: "?els \<le> length ?w"
    by (cases "?els = 0") (simp_all add: length_makeWindow)
  have c: "createDelayAndSumApodizedBeamformer opts matrix i cfg
           = Inr (map (\<lambda>row. Some (\<Sum>e<?els. ?w ! e * row ! e)) matrix)"
    using apodized_rows[OF assms(3) lw] assms(1,2)
    by (simp add: createDelayAndSumApodizedBeamformer_def Let_def)
  show ?thesis using a b c assms(2) by simp
qed

theorem delaySum_linear_fallback_witness:
  "createDelayAndSumBeamformer [[1, 2], [3, 4]] 0
      \<lparr> timeStep = 1, propagationSpeed = 1540,
        scanning = \<lparr> numScanLines = 1, scanType = ''linear'', scanRange = (0, 1), samples = 2 \<rparr>,
        array = \<lparr> ArrayConfig.elements = 2, elementSpacing = 1 \<rparr> \<rparr>
     = Inr [Some 3, Some 7]
   \<and> createDelayAndSumApodizedBeamformer
        \<lparr> ApodizedOptions.windowType = Some ''rectangular'', ApodizedOptions.chebyshevSidelobeDb = None \<rparr>
        [[1, 2], [3, 4]] 0
      \<lparr> timeStep = 1, propagationSpeed = 1540,
        scanning = \<lparr> numScanLines = 1, scanType = ''linear'', scanRange = (0, 1), samples = 2 \<rparr>,
        array = \<lparr> ArrayConfig.elements = 2, elementSpacing = 1 \<rparr> \<rparr>
     = Inr [Some 3, Some 7]"
  using delaySum_linear_fallback
    [of "\<lparr> timeStep = 1, propagationSpeed = 1540,
        scanning = \<lparr> numScanLines = 1, scanType = ''linear'', scanRange = (0, 1), samples = 2 \<rparr>,
        array = \<lparr> ArrayConfig.elements = 2, elementSpacing = 1 \<rparr> \<rparr>"
        "[[1, 2], [3, 4]]" 0
        "\<lparr> ApodizedOptions.windowType = Some ''rectangular'', ApodizedOptions.chebyshevSidelobeDb = None \<rparr>"]
  by (simp add: makeWindow_def rectangularWindow_def upt_rec lessThan_Suc numeral_2_eq_2)

text \<open>
  C4. For a matrix in which the element index \<open>e\<close> is in range of every row, and a
  fractional sample index \<open>idx\<close> with floor \<open>s0\<close> and fractional part \<open>frac\<close>:
  \<open>sampleRowLinear\<close> returns 0 if \<open>s0\<close> is outside the rows, the stored \<open>matrix[s0][e]\<close> if
  \<open>frac \<le> 1e-12\<close> or if \<open>s0 + 1\<close> is outside the rows, and otherwise
  \<open>matrix[s0][e] * (1 - frac) + matrix[s0 + 1][e] * frac\<close>. At an integer index of a
  row it returns the stored value, and at \<open>samples - 1 + 0.5\<close> the last stored value.
\<close>

theorem sampleRowLinear_rule:
  assumes inr: "\<forall>row \<in> set matrix. e < length row"
  shows "sampleRowLinear matrix e idx =
           (if \<lfloor>idx\<rfloor> < 0 \<or> \<lfloor>idx\<rfloor> \<ge> int (length matrix) then Some 0
            else if idx - real_of_int \<lfloor>idx\<rfloor> \<le> 1 / 10 ^ 12 then Some (matrix ! nat \<lfloor>idx\<rfloor> ! e)
            else if \<lfloor>idx\<rfloor> + 1 \<ge> int (length matrix) then Some (matrix ! nat \<lfloor>idx\<rfloor> ! e)
            else Some (matrix ! nat \<lfloor>idx\<rfloor> ! e * (1 - (idx - real_of_int \<lfloor>idx\<rfloor>))
                       + matrix ! nat (\<lfloor>idx\<rfloor> + 1) ! e * (idx - real_of_int \<lfloor>idx\<rfloor>)))
         \<and> (\<forall>s < length matrix. sampleRowLinear matrix e (real s) = Some (matrix ! s ! e))
         \<and> (matrix \<noteq> [] \<longrightarrow>
              sampleRowLinear matrix e (real (length matrix - 1) + 0.5)
                = Some (matrix ! (length matrix - 1) ! e))"
proof -
  have cell: "\<And>k. k < length matrix \<Longrightarrow> rowAt (matrix ! k) e = Some (matrix ! k ! e)"
    using inr by (simp add: rowAt_def)
  have rule: "\<And>idx. sampleRowLinear matrix e idx =
           (if \<lfloor>idx\<rfloor> < 0 \<or> \<lfloor>idx\<rfloor> \<ge> int (length matrix) then Some 0
            else if idx - real_of_int \<lfloor>idx\<rfloor> \<le> 1 / 10 ^ 12 then Some (matrix ! nat \<lfloor>idx\<rfloor> ! e)
            else if \<lfloor>idx\<rfloor> + 1 \<ge> int (length matrix) then Some (matrix ! nat \<lfloor>idx\<rfloor> ! e)
            else Some (matrix ! nat \<lfloor>idx\<rfloor> ! e * (1 - (idx - real_of_int \<lfloor>idx\<rfloor>))
                       + matrix ! nat (\<lfloor>idx\<rfloor> + 1) ! e * (idx - real_of_int \<lfloor>idx\<rfloor>)))"
  proof -
    fix idx :: real
    show "?thesis idx"
    proof (cases "\<lfloor>idx\<rfloor> < 0 \<or> \<lfloor>idx\<rfloor> \<ge> int (length matrix)")
      case True
      then show ?thesis by (auto simp: sampleRowLinear_def Let_def)
    next
      case False
      then have k0: "nat \<lfloor>idx\<rfloor> < length matrix" by linarith
      show ?thesis
      proof (cases "\<lfloor>idx\<rfloor> + 1 \<ge> int (length matrix)")
        case True
        then show ?thesis using False cell[OF k0]
          by (simp add: sampleRowLinear_def Let_def)
      next
        case f2: False
        then have k1: "nat (\<lfloor>idx\<rfloor> + 1) < length matrix" using False by linarith
        have "\<not> \<lfloor>idx\<rfloor> + 1 < 0" using False by linarith
        then show ?thesis using False f2 cell[OF k0] cell[OF k1]
          by (simp add: sampleRowLinear_def Let_def addNum_def mulNum_def)
      qed
    qed
  qed
  have int_idx: "\<forall>s < length matrix. sampleRowLinear matrix e (real s) = Some (matrix ! s ! e)"
  proof (intro allI impI)
    fix s assume "s < length matrix"
    then show "sampleRowLinear matrix e (real s) = Some (matrix ! s ! e)"
      by (simp add: rule)
  qed
  have last_half: "matrix \<noteq> [] \<longrightarrow>
      sampleRowLinear matrix e (real (length matrix - 1) + 0.5) = Some (matrix ! (length matrix - 1) ! e)"
  proof
    assume ne: "matrix \<noteq> []"
    then obtain n where n: "length matrix = Suc n" by (cases matrix) auto
    have fl: "\<lfloor>real n + 0.5\<rfloor> = int n"
      by (rule floor_unique) auto
    have "sampleRowLinear matrix e (real n + 0.5) = Some (matrix ! n ! e)"
      unfolding rule fl using n by simp
    then show "sampleRowLinear matrix e (real (length matrix - 1) + 0.5) = Some (matrix ! (length matrix - 1) ! e)"
      using n by simp
  qed
  show ?thesis using rule[of idx] int_idx last_half by blast
qed

theorem sampleRowLinear_rule_witness:
  "sampleRowLinear [[1, 2], [3, 4]] 1 (1 / 2) = Some 3"
  using sampleRowLinear_rule[of "[[1, 2], [3, 4]]" 1 "1 / 2"] by simp

text \<open>
  C5. For a config (with positive \<open>waveSpeed\<close> and \<open>frequencyHz\<close>) and an angle list on
  which the raw array-factor intensity is positive somewhere, the points of
  \<open>computePattern(cfg, angles, true)\<close> have maximal \<open>intensityLin\<close> 1, every point at
  that peak has \<open>intensityDb\<close> 0, and a point has \<open>intensityDb = -Infinity\<close> exactly
  when its \<open>intensityLin\<close> is 0.
\<close>

theorem computePattern_normalized_peak:
  assumes "\<exists>ang \<in> set angles. 0 < rawIntensity cfg ang"
    and "0 < waveSpeed cfg" and "0 < frequencyHz cfg"
  shows "Max (intensityLin ` set (computePattern cfg angles True)) = 1
       \<and> (\<forall>p \<in> set (computePattern cfg angles True). intensityLin p = 1 \<longrightarrow> intensityDb p = Finite 0)
       \<and> (\<forall>p \<in> set (computePattern cfg angles True).
             (intensityDb p = NegInfinity) = (intensityLin p = 0))"
proof -
  define raw where "raw = map (\<lambda>ang. (ang, rawIntensity cfg ang)) angles"
  define maxI where "maxI = Max (insert 0 (snd ` set raw))"
  define point where "point = (\<lambda>p::real \<times> real.
      \<lparr> angleDeg = fst p, intensityLin = snd p / maxI,
        intensityDb = (if snd p / maxI > 0 then Finite (10 * log 10 (snd p / maxI)) else NegInfinity) \<rparr>)"
  obtain a0 where a0: "a0 \<in> set angles" "0 < rawIntensity cfg a0" using assms(1) by blast
  have in_raw: "rawIntensity cfg a0 \<in> snd ` set raw" using a0(1) by (force simp: raw_def)
  have "rawIntensity cfg a0 \<le> maxI" unfolding maxI_def by (rule Max_ge) (use in_raw in auto)
  with a0(2) have pos: "0 < maxI" by linarith
  have "maxI \<in> insert 0 (snd ` set raw)" unfolding maxI_def by (rule Max_in) auto
  with pos have peak: "maxI \<in> snd ` set raw" by auto
  have pat: "computePattern cfg angles True = map point raw"
    using pos by (simp add: computePattern_def Let_def maxI_fold raw_def[symmetric] maxI_def[symmetric] point_def)
  have nonneg: "\<And>p. p \<in> set raw \<Longrightarrow> 0 \<le> snd p"
    by (auto simp: raw_def rawIntensity_nonneg)
  have le: "\<And>p. p \<in> set raw \<Longrightarrow> snd p \<le> maxI"
    unfolding maxI_def by (rule Max_ge) auto
  have lins: "intensityLin ` set (map point raw) = (\<lambda>p. snd p / maxI) ` set raw"
    by (simp add: image_image point_def)
  have "Max ((\<lambda>p. snd p / maxI) ` set raw) = 1"
  proof (rule Max_eqI)
    show "finite ((\<lambda>p. snd p / maxI) ` set raw)" by simp
  next
    fix y assume "y \<in> (\<lambda>p. snd p / maxI) ` set raw"
    then obtain p where "p \<in> set raw" "y = snd p / maxI" by auto
    then show "y \<le> 1" using le[of p] pos by simp
  next
    obtain p where "p \<in> set raw" "snd p = maxI" using peak by auto
    then have "p \<in> set raw" "snd p / maxI = 1" using pos by auto
    then show "1 \<in> (\<lambda>p. snd p / maxI) ` set raw" by force
  qed
  then have c1: "Max (intensityLin ` set (computePattern cfg angles True)) = 1"
    by (simp only: pat lins)
  have c2: "\<forall>p \<in> set (computePattern cfg angles True). intensityLin p = 1 \<longrightarrow> intensityDb p = Finite 0"
    unfolding pat by (auto simp: point_def)
  have c3: "\<forall>p \<in> set (computePattern cfg angles True). (intensityDb p = NegInfinity) = (intensityLin p = 0)"
  proof
    fix q assume "q \<in> set (computePattern cfg angles True)"
    then obtain p where p: "p \<in> set raw" "q = point p" unfolding pat by auto
    have "0 \<le> snd p / maxI" using nonneg[OF p(1)] pos by simp
    then show "(intensityDb q = NegInfinity) = (intensityLin q = 0)"
      unfolding p(2) by (auto simp: point_def)
  qed
  show ?thesis using c1 c2 c3 by blast
qed

theorem computePattern_normalized_peak_witness:
  "0 < rawIntensity \<lparr> elements = 1, spacing = 1 / 2, spacingUnit = ''wavelength'',
       frequencyHz = 1000000, waveSpeed = 1540, steerAngleDeg = 0, windowType = ''rectangular'',
       chebyshevSidelobeDb = None, focusDepth = None, customWeights = None \<rparr> 0
   \<and> Max (intensityLin ` set (computePattern \<lparr> elements = 1, spacing = 1 / 2, spacingUnit = ''wavelength'',
       frequencyHz = 1000000, waveSpeed = 1540, steerAngleDeg = 0, windowType = ''rectangular'',
       chebyshevSidelobeDb = None, focusDepth = None, customWeights = None \<rparr> [0] True)) = 1"
proof -
  let ?cfg = "\<lparr> elements = 1, spacing = 1 / 2, spacingUnit = ''wavelength'',
       frequencyHz = 1000000, waveSpeed = 1540, steerAngleDeg = 0, windowType = ''rectangular'',
       chebyshevSidelobeDb = None, focusDepth = None, customWeights = None \<rparr> :: (nat, real) ProfileConfig"
  have h: "\<exists>ang \<in> set [0]. 0 < rawIntensity ?cfg ang"
    by (simp add: rawIntensity_def computeWeights_def chosenWindow_def makeWindow_def
        rectangularWindow_def normalizeMax_def Let_def)
  have p: "(0::real) < waveSpeed ?cfg" "(0::real) < frequencyHz ?cfg" by simp_all
  show ?thesis using h computePattern_normalized_peak[OF h p] by simp
qed

text \<open>
  C6. For a config with an odd number \<open>N\<close> of elements and a focus depth \<open>F > 0\<close>
  (and the positive \<open>waveSpeed\<close> and \<open>frequencyHz\<close> of a \<open>ProfileConfig\<close>, so that no
  division is by zero), the time delay \<open>computeDelays\<close> gives the centre element, index
  \<open>(N - 1) / 2\<close>, is exactly 0.
\<close>

theorem computeDelays_focused_center_zero:
  assumes "odd (elements cfg)"
    and "focusDepth cfg = Some F" and "0 < F"
    and "0 < waveSpeed cfg" and "0 < frequencyHz cfg"
  shows "timeDelays (computeDelays cfg) ! ((elements cfg - 1) div 2) = 0"
proof -
  let ?N = "elements cfg"
  let ?m = "(?N - 1) div 2"
  obtain k where k: "?N = 2 * k + 1" using assms(1) by (auto elim: oddE)
  have m: "?m = k" using k by simp
  have lt: "?m < ?N" using k by simp
  have centre: "real ((?N - Suc 0) div 2) = (real ?N - 1) / 2" using k by simp
  show ?thesis
    using assms(2,3) lt
    by (simp add: computeDelays_def Let_def timeDelays_delaysFrom centre)
qed

theorem computeDelays_focused_center_zero_witness:
  "timeDelays (computeDelays \<lparr> elements = 3, spacing = 1 / 2, spacingUnit = ''wavelength'',
       frequencyHz = 1000000, waveSpeed = 1540, steerAngleDeg = 0, windowType = ''hamming'',
       chebyshevSidelobeDb = None, focusDepth = Some (1 / 50), customWeights = None \<rparr>) ! 1 = 0"
  using computeDelays_focused_center_zero
    [of "\<lparr> elements = 3, spacing = 1 / 2, spacingUnit = ''wavelength'',
       frequencyHz = 1000000, waveSpeed = 1540, steerAngleDeg = 0, windowType = ''hamming'',
       chebyshevSidelobeDb = None, focusDepth = Some (1 / 50), customWeights = None \<rparr>" "1 / 50"]
  by simp

text \<open>
  C7. With \<open>windowType = "custom"\<close> and \<open>customWeights\<close> absent or of a length other than
  \<open>elements\<close>, \<open>computeWeights\<close> (a total function: nothing is thrown) returns the
  Hamming window of \<open>elements\<close> divided by its largest absolute value, so that the
  largest absolute weight is 1; for \<open>elements \<ge> 1\<close>, the invariant of \<open>ProfileConfig\<close>,
  its length is \<open>elements\<close>.
\<close>

theorem computeWeights_custom_fallback:
  assumes "windowType cfg = ''custom''"
    and "customWeights cfg = None
         \<or> (\<exists>cw. customWeights cfg = Some cw \<and> length cw \<noteq> elements cfg)"
  shows "computeWeights cfg =
           map (\<lambda>v. v / Max (set (map abs (hammingWindow (elements cfg)))))
             (hammingWindow (elements cfg))
         \<and> mathMax (map abs (computeWeights cfg)) = Some 1
         \<and> (1 \<le> elements cfg \<longrightarrow> length (computeWeights cfg) = elements cfg)"
proof -
  have cw: "chosenWindow cfg = hammingWindow (elements cfg)"
    using assms by (auto simp: chosenWindow_def makeWindow_def Let_def)
  show ?thesis
    unfolding computeWeights_def cw
    using normalizeMax_div[OF hammingWindow_nonzero] normalizeMax_max[OF hammingWindow_nonzero]
    by (simp add: length_normalizeMax length_hammingWindow)
qed

theorem computeWeights_custom_fallback_witness:
  "computeWeights \<lparr> elements = 2, spacing = 1 / 2, spacingUnit = ''wavelength'',
       frequencyHz = 1000000, waveSpeed = 1540, steerAngleDeg = 0, windowType = ''custom'',
       chebyshevSidelobeDb = None, focusDepth = None, customWeights = Some [1, 2, 3] \<rparr>
     = [1, 1]"
  using computeWeights_custom_fallback
    [of "\<lparr> elements = 2, spacing = 1 / 2, spacingUnit = ''wavelength'',
       frequencyHz = 1000000, waveSpeed = 1540, steerAngleDeg = 0, windowType = ''custom'',
       chebyshevSidelobeDb = None, focusDepth = None, customWeights = Some [1, 2, 3] \<rparr>"]
  by (simp add: hammingWindow_def upt_rec)

text \<open>
  C8. For an input of \<open>computePatternStats\<close> (a total function: nothing is thrown) that
  is empty or whose largest \<open>intensityLin\<close> is 0, the fields \<open>pslDb\<close>, \<open>pslLin\<close>,
  \<open>islrDb\<close> and \<open>fwhmDeg\<close> of the result are all \<open>null\<close>.
\<close>

theorem computePatternStats_degenerate:
  assumes "pointsIn = [] \<or> Max (intensityLin ` set pointsIn) = 0"
  shows "pslDb (computePatternStats pointsIn) = None
       \<and> pslLin (computePatternStats pointsIn) = None
       \<and> islrDb (computePatternStats pointsIn) = None
       \<and> fwhmDeg (computePatternStats pointsIn) = None"
proof (cases "pointsIn = []")
  case True
  then show ?thesis by (simp add: computePatternStats_def nullStats_def)
next
  case False
  then have mx: "Max (intensityLin ` set pointsIn) = 0" using assms by simp
  let ?vals = "map intensityLin (sort_key angleDeg pointsIn)"
  have ne: "?vals \<noteq> []" using False by (simp add: sort_key_def[symmetric]) (metis length_0_conv length_sort)
  have "set ?vals = intensityLin ` set pointsIn" by simp
  then have "?vals ! (foldl (\<lambda>pk i. if ?vals ! i > ?vals ! pk then i else pk) 0 [1..<length ?vals]) = 0"
    using peak_fold[OF ne] mx by simp
  then have "computePatternStats pointsIn = nullStats"
    by (simp add: computePatternStats_def Let_def)
  then show ?thesis by (simp add: nullStats_def)
qed

theorem computePatternStats_degenerate_witness:
  "Max (intensityLin ` set [\<lparr> angleDeg = 0, intensityLin = 0, intensityDb = NegInfinity \<rparr>]) = 0
   \<and> pslDb (computePatternStats [\<lparr> angleDeg = 0, intensityLin = 0, intensityDb = NegInfinity \<rparr>]) = None
   \<and> fwhmDeg (computePatternStats [\<lparr> angleDeg = 0, intensityLin = 0, intensityDb = NegInfinity \<rparr>]) = None"
  using computePatternStats_degenerate
    [of "[\<lparr> angleDeg = 0, intensityLin = 0, intensityDb = NegInfinity \<rparr>]"]
  by simp

text \<open>
  C9. For both point-source generators, every generator configuration and every
  dynamic beamforming config, \<open>generateScanline\<close> returns the same sample matrix at any
  two scanline indices.
\<close>

theorem generateScanline_index_independent:
  "createPointSourceGenerator genConfig i cfg = createPointSourceGenerator genConfig j cfg
   \<and> createPointSourceGeneratorTxRx genConfig i cfg = createPointSourceGeneratorTxRx genConfig j cfg"
  by (simp add: createPointSourceGenerator_def createPointSourceGeneratorTxRx_def)

text \<open>
  C10. For a CSV text with a line that is the data header row
  \<open>index,weight,phaseRadians,timeDelaySeconds\<close> and no \<open>elements\<close> key line before it,
  \<open>parseCsvConfig\<close> does not throw and returns a config with \<open>elements = 0\<close>, below the
  documented \<open>elements \<ge> 1\<close>.
\<close>

theorem parseCsvConfig_without_elements_line:
  assumes "i < length (splitLines csv)"
    and "startsWith (trim (splitLines csv ! i)) dataHeader"
    and "\<forall>j < i. \<not> startsWith (trim (splitLines csv ! j)) ''elements,''"
  shows "\<exists>r. parseCsvConfig ops csv = Inr r
             \<and> elements (ParsedCsv.config r) = natToNum ops 0"
proof -
  have "snd (scanConfig (splitLines csv) Map.empty) \<noteq> None
        \<and> fst (scanConfig (splitLines csv) Map.empty) ''elements'' = None"
    using scanConfig_no_elements[of i "splitLines csv" Map.empty, OF assms] by simp
  then obtain rest where "snd (scanConfig (splitLines csv) Map.empty) = Some rest"
    and "fst (scanConfig (splitLines csv) Map.empty) ''elements'' = None" by auto
  then show ?thesis by (simp add: parseCsvConfig_def Let_def)
qed

theorem parseCsvConfig_without_elements_line_witness:
  "\<exists>r. parseCsvConfig natOps (''spacing,2'' @ [LF] @ ''index,weight,phaseRadians,timeDelaySeconds'' @ [LF] @ ''0,1,0,0'') = Inr r
       \<and> elements (ParsedCsv.config r) = 0"
  using parseCsvConfig_without_elements_line
    [of 1 "''spacing,2'' @ [LF] @ ''index,weight,phaseRadians,timeDelaySeconds'' @ [LF] @ ''0,1,0,0''" natOps]
  by (simp add: LF_def CR_def trim_def isSpace_def startsWith_def dataHeader_def natOps_def digitChar_def)

end
